theory Spec2Isabelle
  imports Complex_Main
begin

section \<open>The interactive web background of \<^verbatim>\<open>script.js\<close>\<close>

text \<open>
  The script keeps a grid of points on a canvas, moves them every animation frame and
  strokes lines between neighbouring points. This theory embeds the grid generator
  (\<^verbatim>\<open>resize\<close>, \<^verbatim>\<open>initPoints\<close>), the physics tick (\<^verbatim>\<open>update\<close>), the renderer
  (\<^verbatim>\<open>draw\<close>), the event handlers and the frame scheduler (\<^verbatim>\<open>animate\<close>).

  Conventions of the embedding:
  \<^item> JavaScript numbers that hold coordinates and velocities are modelled as \<open>real\<close>:
    the arithmetic is the exact one, without the rounding, infinities and NaN of IEEE
    doubles. Lattice coordinates and indices are \<open>int\<close>, counters are \<open>nat\<close>.
  \<^item> \<^verbatim>\<open>Math.random()\<close> is the host's: the sequence of values it returns is a parameter
    \<open>rnd :: nat \<Rightarrow> real\<close>, and the engine counts the draws made so far; the \<open>n\<close>-th call
    returns \<open>rnd n\<close>. The host promises \<open>0 \<le> rnd n < 1\<close>.
  \<^item> \<^verbatim>\<open>Date.now()\<close> and the viewport size are inputs of the events that read them.
  \<^item> The closure variables of the script are the fields of the record \<open>engine\<close>; the
    calls made to the host (canvas and \<^verbatim>\<open>requestAnimationFrame\<close>) are logged in its
    field \<open>calls\<close>, oldest first. Colours, line width and glow are constants of the
    script and are left out of the logged calls; the opacity of a stroke is kept.
\<close>

subsection \<open>Data\<close>

text \<open>A point object \<^verbatim>\<open>{x, y, ox, oy, vx, vy, col, row}\<close>; \<open>px\<close>, \<open>py\<close> are its \<^verbatim>\<open>x\<close>, \<^verbatim>\<open>y\<close>.\<close>

record point =
  px :: real
  py :: real
  ox :: real
  oy :: real
  vx :: real
  vy :: real
  col :: int
  row :: int

text \<open>\<^verbatim>\<open>const mouse = { x: null, y: null }\<close>: \<open>None\<close> is \<^verbatim>\<open>null\<close>.\<close>

record mouse_state =
  mouse_x :: "real option"
  mouse_y :: "real option"

datatype host_call =
    ClearRect real real real real
  | FillArc real real real real
  | StrokeLine real real real real real
  | RequestAnimationFrame

text \<open>
  \<open>FillArc cx cy r a\<close> is a filled circle of radius \<open>r\<close> and opacity \<open>a\<close>;
  \<open>StrokeLine x1 y1 x2 y2 a\<close> is a stroked segment of opacity \<open>a\<close>.
\<close>

record engine =
  width :: real
  height :: real
  points :: "point list"
  cols :: int
  rows :: int
  mouse :: mouse_state
  lastScrollTime :: int
  frameCount :: nat
  draws :: nat
  calls :: "host_call list"

definition spacing :: real where
  "spacing = 100"

definition maxDist :: real where
  "maxDist = 180"

text \<open>The state of the closure before \<^verbatim>\<open>resize()\<close> and \<^verbatim>\<open>animate()\<close> are first called.\<close>

definition init_engine :: engine where
  "init_engine =
     \<lparr>width = 0, height = 0, points = [], cols = 0, rows = 0,
      mouse = \<lparr>mouse_x = None, mouse_y = None\<rparr>,
      lastScrollTime = 0, frameCount = 0, draws = 0, calls = []\<rparr>"

subsection \<open>JavaScript operators\<close>

text \<open>In arithmetic \<^verbatim>\<open>null\<close> converts to \<open>0\<close>.\<close>

definition js_num :: "real option \<Rightarrow> real" where
  "js_num v = (case v of None \<Rightarrow> 0 | Some r \<Rightarrow> r)"

text \<open>\<^verbatim>\<open>a || b\<close> on numbers: \<open>0\<close> is falsy.\<close>

definition js_or :: "real \<Rightarrow> real \<Rightarrow> real" where
  "js_or a b = (if a = 0 then b else a)"

text \<open>\<^verbatim>\<open>xs[n]\<close>: \<^verbatim>\<open>undefined\<close> (here \<open>None\<close>) outside the array.\<close>

definition js_index :: "'a list \<Rightarrow> int \<Rightarrow> 'a option" where
  "js_index xs n = (if 0 \<le> n \<and> n < int (length xs) then Some (xs ! nat n) else None)"

subsection \<open>Grid generator\<close>

text \<open>
  The body of the inner loop of \<^verbatim>\<open>initPoints\<close>: four draws, in the order of the source
  (\<^verbatim>\<open>x\<close>, \<^verbatim>\<open>y\<close>, \<^verbatim>\<open>vx\<close>, \<^verbatim>\<open>vy\<close>), then \<^verbatim>\<open>points.push\<close>. The state of the loop is the
  array built so far and the number of draws made so far.
\<close>

definition stagger :: "nat \<Rightarrow> real" where
  "stagger j = (if j mod 2 = 0 then 0 else spacing / 2)"

definition new_point :: "(nat \<Rightarrow> real) \<Rightarrow> nat \<Rightarrow> nat \<Rightarrow> nat \<Rightarrow> point" where
  "new_point rnd i j n =
     (let x = real i * spacing + stagger j + (rnd n * 12 - 6);
          y = real j * spacing + (rnd (n + 1) * 12 - 6)
      in \<lparr>px = x, py = y, ox = x, oy = y,
          vx = (rnd (n + 2) - 0.5) * 0.04,
          vy = (rnd (n + 3) - 0.5) * 0.04,
          col = int i, row = int j\<rparr>)"

definition push_point :: "(nat \<Rightarrow> real) \<Rightarrow> nat \<Rightarrow> nat \<Rightarrow> point list \<times> nat \<Rightarrow> point list \<times> nat" where
  "push_point rnd i j s = (fst s @ [new_point rnd i j (snd s)], snd s + 4)"

text \<open>
  \<^verbatim>\<open>for (let i = 0; i < cols; i++) for (let j = 0; j < rows; j++)\<close>: the loop variables
  run over \<open>[0..<nat cols]\<close> and \<open>[0..<nat rows]\<close>, which are empty when the bound is not
  positive.
\<close>

definition initPoints :: "(nat \<Rightarrow> real) \<Rightarrow> engine \<Rightarrow> engine" where
  "initPoints rnd st =
     (let s = fold (\<lambda>i. fold (\<lambda>j. push_point rnd i j) [0..<nat (rows st)])
                [0..<nat (cols st)] ([], draws st)
      in st\<lparr>points := fst s, draws := snd s\<rparr>)"

text \<open>\<^verbatim>\<open>resize\<close>, with \<^verbatim>\<open>window.innerWidth\<close> and \<^verbatim>\<open>window.innerHeight\<close> as \<open>w\<close> and \<open>h\<close>.\<close>

definition resize :: "(nat \<Rightarrow> real) \<Rightarrow> real \<Rightarrow> real \<Rightarrow> engine \<Rightarrow> engine" where
  "resize rnd w h st =
     initPoints rnd
       (st\<lparr>width := w, height := h,
           cols := \<lceil>w / spacing\<rceil> + 1,
           rows := \<lceil>h / spacing\<rceil> + 1\<rparr>)"

definition idx :: "int \<Rightarrow> int \<Rightarrow> int \<Rightarrow> int" where
  "idx r i j = i * r + j"

subsection \<open>Pointer and scroll handlers\<close>

text \<open>\<^verbatim>\<open>onMove\<close>: \<open>cx\<close>, \<open>cy\<close> are the event's client coordinates, \<open>l\<close>, \<open>t\<close> the canvas rectangle's.\<close>

definition onMove :: "real \<Rightarrow> real \<Rightarrow> real \<Rightarrow> real \<Rightarrow> engine \<Rightarrow> engine" where
  "onMove cx cy l t st = st\<lparr>mouse := \<lparr>mouse_x = Some (cx - l), mouse_y = Some (cy - t)\<rparr>\<rparr>"

definition onLeave :: "engine \<Rightarrow> engine" where
  "onLeave st = st\<lparr>mouse := \<lparr>mouse_x = None, mouse_y = None\<rparr>\<rparr>"

definition onScroll :: "int \<Rightarrow> engine \<Rightarrow> engine" where
  "onScroll now st = st\<lparr>lastScrollTime := now\<rparr>"

subsection \<open>Physics tick\<close>

text \<open>\<^verbatim>\<open>Math.sqrt(dx * dx + dy * dy) || 1\<close> and the local \<^verbatim>\<open>force\<close> of \<^verbatim>\<open>update\<close>; \<open>d\<close> is the source's \<^verbatim>\<open>dist\<close>.\<close>

definition pointer_dist :: "real \<Rightarrow> real \<Rightarrow> real" where
  "pointer_dist dx dy = js_or (sqrt (dx * dx + dy * dy)) 1"

definition repel_force :: "real \<Rightarrow> real" where
  "repel_force d = (maxDist - d) / maxDist * 0.6"

text \<open>
  The block \<^verbatim>\<open>if (mouse.x !== null) { ... }\<close> of \<^verbatim>\<open>update\<close>, for one point. Only
  \<^verbatim>\<open>mouse.x\<close> is tested; \<^verbatim>\<open>mouse.y\<close> is read as a number.
\<close>

definition mouse_repel :: "mouse_state \<Rightarrow> point \<Rightarrow> point" where
  "mouse_repel m p =
     (case mouse_x m of
        None \<Rightarrow> p
      | Some mx \<Rightarrow>
          (let dx = px p - mx;
               dy = py p - js_num (mouse_y m);
               d = pointer_dist dx dy
           in if d < maxDist then
                (let force = repel_force d;
                     p' = p\<lparr>px := px p + (dx / d) * force * 0.9\<rparr>;
                     p'' = p'\<lparr>py := py p' + (dy / d) * force * 0.9\<rparr>
                 in p'')
              else p))"

text \<open>
  The body of the loop of \<^verbatim>\<open>update\<close> for one point: the assignments in the order of
  the source, each reading the fields as the earlier ones left them, then the pointer
  block. \<open>r1\<close> and \<open>r2\<close> are the two values drawn from \<^verbatim>\<open>Math.random()\<close>.
\<close>

definition update_point :: "mouse_state \<Rightarrow> real \<Rightarrow> real \<Rightarrow> point \<Rightarrow> point" where
  "update_point m r1 r2 p0 =
     (let p1 = p0\<lparr>px := px p0 + vx p0\<rparr>;
          p2 = p1\<lparr>py := py p1 + vy p1\<rparr>;
          p3 = p2\<lparr>vx := vx p2 + (ox p2 - px p2) * 0.00012\<rparr>;
          p4 = p3\<lparr>vy := vy p3 + (oy p3 - py p3) * 0.00012\<rparr>;
          p5 = p4\<lparr>vx := vx p4 + (r1 - 0.5) * 0.00008\<rparr>;
          p6 = p5\<lparr>vy := vy p5 + (r2 - 0.5) * 0.00008\<rparr>
      in mouse_repel m p6)"

text \<open>\<^verbatim>\<open>for (let p of points)\<close>, two draws for each point.\<close>

fun update_points :: "mouse_state \<Rightarrow> (nat \<Rightarrow> real) \<Rightarrow> nat \<Rightarrow> point list \<Rightarrow> point list \<times> nat" where
  "update_points m rnd n [] = ([], n)"
| "update_points m rnd n (p # ps) =
     (let r = update_points m rnd (n + 2) ps
      in (update_point m (rnd n) (rnd (n + 1)) p # fst r, snd r))"

definition update :: "(nat \<Rightarrow> real) \<Rightarrow> engine \<Rightarrow> engine" where
  "update rnd st =
     (let r = update_points (mouse st) rnd (draws st) (points st)
      in st\<lparr>points := fst r, draws := snd r\<rparr>)"

subsection \<open>Renderer\<close>

text \<open>The array \<^verbatim>\<open>neighbors\<close> built for a point at column \<open>i\<close> and row \<open>j\<close>.\<close>

definition neighbors :: "int \<Rightarrow> int \<Rightarrow> int \<Rightarrow> int \<Rightarrow> int list" where
  "neighbors c r i j =
     (if i + 1 < c then [idx r (i + 1) j] else []) @
     (if j + 1 < r then [idx r i (j + 1)] else []) @
     (if i + 1 < c \<and> j + 1 < r then [idx r (i + 1) (j + 1)] else []) @
     (if i + 1 < c \<and> j - 1 \<ge> 0 then [idx r (i + 1) (j - 1)] else [])"

text \<open>The opacity written into \<^verbatim>\<open>strokeStyle\<close>: \<^verbatim>\<open>alpha * 0.32\<close> with \<^verbatim>\<open>alpha = 1 - dist / maxDist\<close>.\<close>

definition edge_alpha :: "real \<Rightarrow> real" where
  "edge_alpha d = (let alpha = 1 - d / maxDist in alpha * 0.32)"

definition edge_dist :: "point \<Rightarrow> point \<Rightarrow> real" where
  "edge_dist p q =
     (let dx = px p - px q; dy = py p - py q in sqrt (dx * dx + dy * dy))"

text \<open>The body of \<^verbatim>\<open>for (const n of neighbors)\<close> once \<^verbatim>\<open>q\<close> is known to be a point.\<close>

definition draw_edge :: "point \<Rightarrow> point \<Rightarrow> host_call list" where
  "draw_edge p q =
     (let d = edge_dist p q
      in if d < maxDist
         then [StrokeLine (px p) (py p) (px q) (py q) (edge_alpha d)]
         else [])"

text \<open>
  The candidate edges of the point with index \<open>k\<close>: the pairs \<open>(k, n)\<close> for \<open>n\<close> in its
  \<^verbatim>\<open>neighbors\<close> array, in the order of the array.
\<close>

definition candidates_of :: "engine \<Rightarrow> nat \<Rightarrow> (nat \<times> int) list" where
  "candidates_of st k =
     (let p = points st ! k
      in map (Pair k) (neighbors (cols st) (rows st) (col p) (row p)))"

text \<open>\<^verbatim>\<open>const q = points[n]; if (!q) continue;\<close> and the stroke.\<close>

definition edge_calls :: "engine \<Rightarrow> nat \<times> int \<Rightarrow> host_call list" where
  "edge_calls st e =
     (case js_index (points st) (snd e) of
        None \<Rightarrow> []
      | Some q \<Rightarrow> draw_edge (points st ! fst e) q)"

definition point_calls :: "engine \<Rightarrow> nat \<Rightarrow> host_call list" where
  "point_calls st k =
     (let p = points st ! k
      in FillArc (px p) (py p) 0.5 0.22 # concat (map (edge_calls st) (candidates_of st k)))"

definition halo_calls :: "mouse_state \<Rightarrow> host_call list" where
  "halo_calls m =
     (case mouse_x m of
        None \<Rightarrow> []
      | Some mx \<Rightarrow> [FillArc mx (js_num (mouse_y m)) 28 0.05])"

definition draw_calls :: "engine \<Rightarrow> host_call list" where
  "draw_calls st =
     ClearRect 0 0 (width st) (height st) #
     concat (map (point_calls st) [0..<length (points st)]) @
     halo_calls (mouse st)"

definition draw :: "engine \<Rightarrow> engine" where
  "draw st = st\<lparr>calls := calls st @ draw_calls st\<rparr>"

text \<open>All candidate edges of a frame, and the strokes made for them, in drawing order.\<close>

definition candidates :: "engine \<Rightarrow> (nat \<times> int) list" where
  "candidates st = concat (map (candidates_of st) [0..<length (points st)])"

subsection \<open>Frame scheduler\<close>

definition requestAnimationFrame :: "engine \<Rightarrow> engine" where
  "requestAnimationFrame st = st\<lparr>calls := calls st @ [RequestAnimationFrame]\<rparr>"

text \<open>\<^verbatim>\<open>animate\<close>, with the value of \<^verbatim>\<open>Date.now()\<close> as \<open>now\<close>.\<close>

definition animate :: "(nat \<Rightarrow> real) \<Rightarrow> int \<Rightarrow> engine \<Rightarrow> engine" where
  "animate rnd now st0 =
     (let st = st0\<lparr>frameCount := frameCount st0 + 1\<rparr>;
          scrolling = now - lastScrollTime st < 160;
          skip = (if scrolling then 3 else 0 :: nat);
          st' = (if frameCount st mod (skip + 1) = 0 then draw (update rnd st) else st)
      in requestAnimationFrame st')"

text \<open>
  The events the host delivers, one at a time; \<open>Frame now\<close> is the animation-frame
  callback, the others are the listeners registered at the end of the script.
\<close>

datatype event =
    Resize real real
  | Move real real real real
  | Leave
  | Scroll int
  | Frame int

fun handle :: "(nat \<Rightarrow> real) \<Rightarrow> event \<Rightarrow> engine \<Rightarrow> engine" where
  "handle rnd (Resize w h) st = resize rnd w h st"
| "handle rnd (Move cx cy l t) st = onMove cx cy l t st"
| "handle rnd Leave st = onLeave st"
| "handle rnd (Scroll now) st = onScroll now st"
| "handle rnd (Frame now) st = animate rnd now st"

definition run :: "(nat \<Rightarrow> real) \<Rightarrow> event list \<Rightarrow> engine \<Rightarrow> engine" where
  "run rnd evs st = fold (handle rnd) evs st"

subsection \<open>Auxiliary definitions\<close>

text \<open>
  The array that the two nested loops of \<^verbatim>\<open>initPoints\<close> build in closed form: \<open>c\<close> columns of
  \<open>r\<close> rows, column by column, the point of cell \<open>(i, j)\<close> made from the four draws that
  start at draw \<open>n + 4 * (i * r + j)\<close>.
\<close>

definition grid_points :: "(nat \<Rightarrow> real) \<Rightarrow> nat \<Rightarrow> nat \<Rightarrow> nat \<Rightarrow> point list" where
  "grid_points rnd n c r =
     concat (map (\<lambda>i. map (\<lambda>j. new_point rnd i j (n + 4 * (i * r + j))) [0..<r]) [0..<c])"

text \<open>A random source that always returns \<open>1/2\<close>: every jitter of the script is then \<open>0\<close>.\<close>

definition rnd_half :: "nat \<Rightarrow> real" where
  "rnd_half n = 1 / 2"

text \<open>
  The four steps of a tick as the specification words them, each a function on one point;
  \<open>a\<close> and \<open>b\<close> are the jitters added to the two velocity components, and the pointer is
  a position or absent.
\<close>

definition spec_integrate :: "point \<Rightarrow> point" where
  "spec_integrate p = p\<lparr>px := px p + vx p, py := py p + vy p\<rparr>"

definition spec_restore :: "point \<Rightarrow> point" where
  "spec_restore p =
     p\<lparr>vx := vx p + (ox p - px p) * 0.00012, vy := vy p + (oy p - py p) * 0.00012\<rparr>"

definition spec_jitter :: "real \<Rightarrow> real \<Rightarrow> point \<Rightarrow> point" where
  "spec_jitter a b p = p\<lparr>vx := vx p + a, vy := vy p + b\<rparr>"

definition spec_repulsion :: "(real \<times> real) option \<Rightarrow> point \<Rightarrow> point" where
  "spec_repulsion pointer p =
     (case pointer of
        None \<Rightarrow> p
      | Some (mouseX, mouseY) \<Rightarrow>
          (let dx = px p - mouseX; dy = py p - mouseY;
               d0 = sqrt (dx\<^sup>2 + dy\<^sup>2);
               d = (if d0 = 0 then 1 else d0)
           in if d < maxDist
              then (let force = (maxDist - d) / maxDist * 0.6
                    in p\<lparr>px := px p + dx / d * force * 0.9, py := py p + dy / d * force * 0.9\<rparr>)
              else p))"

text \<open>The pointer state of the specification read off the \<^verbatim>\<open>mouse\<close> object.\<close>

definition pointer_of :: "mouse_state \<Rightarrow> (real \<times> real) option" where
  "pointer_of m = (case mouse_x m of None \<Rightarrow> None | Some mx \<Rightarrow> Some (mx, js_num (mouse_y m)))"

definition no_mouse :: mouse_state where
  "no_mouse = \<lparr>mouse_x = None, mouse_y = None\<rparr>"

text \<open>A point away from its rest position, moving.\<close>

definition sample_point :: point where
  "sample_point = \<lparr>px = 10, py = 20, ox = 12, oy = 20, vx = 1, vy = -1, col = 0, row = 0\<rparr>"

text \<open>A point at rest at its origin, and the pointer exactly on it.\<close>

definition rest_point :: point where
  "rest_point = \<lparr>px = 5, py = 7, ox = 5, oy = 7, vx = 0, vy = 0, col = 0, row = 0\<rparr>"

definition mouse_on_rest_point :: mouse_state where
  "mouse_on_rest_point = \<lparr>mouse_x = Some 5, mouse_y = Some 7\<rparr>"

text \<open>
  The quantity that a tick without pointer and without jitter keeps constant on each axis,
  for the displacement \<open>d\<close> from the rest position and the velocity \<open>v\<close>:
  \<open>v\<^sup>2 + k * d * v + k * d\<^sup>2\<close> with \<open>k = 0.00012\<close>.
\<close>

definition spring :: "real \<Rightarrow> real \<Rightarrow> real" where
  "spring d v = v\<^sup>2 + 0.00012 * d * v + 0.00012 * d\<^sup>2"

definition spring_x :: "point \<Rightarrow> real" where
  "spring_x p = spring (px p - ox p) (vx p)"

definition spring_y :: "point \<Rightarrow> real" where
  "spring_y p = spring (py p - oy p) (vy p)"

text \<open>A point at its rest position with a velocity that \<^verbatim>\<open>initPoints\<close> can give it.\<close>

definition drifting_point :: point where
  "drifting_point = \<lparr>px = 0, py = 0, ox = 0, oy = 0, vx = 0.01, vy = 0, col = 0, row = 0\<rparr>"

text \<open>The engine of a one-cell grid that holds this point, pointer absent.\<close>

definition drifting_engine :: engine where
  "drifting_engine = init_engine\<lparr>points := [drifting_point], cols := 1, rows := 1\<rparr>"

text \<open>
  The grid invariant: the point at index \<open>k\<close> carries the lattice coordinates
  \<open>(k div rows, k mod rows)\<close>, and there are \<open>cols * rows\<close> points.
\<close>

definition lattice :: "engine \<Rightarrow> bool" where
  "lattice st \<longleftrightarrow>
     map (\<lambda>p. (col p, row p)) (points st) =
     map (\<lambda>k. (int (k div nat (rows st)), int (k mod nat (rows st))))
       [0..<nat (cols st) * nat (rows st)]"

text \<open>
  The neighbour cells of cell \<open>(i, j)\<close> as the specification lists them: right, bottom,
  bottom-right and top-right, those that exist in a grid of \<open>c\<close> columns and \<open>r\<close> rows.
\<close>

definition spec_neighbours :: "int \<Rightarrow> int \<Rightarrow> int \<Rightarrow> int \<Rightarrow> (int \<times> int) list" where
  "spec_neighbours c r i j =
     filter (\<lambda>(i', j'). 0 \<le> i' \<and> i' < c \<and> 0 \<le> j' \<and> j' < r)
       [(i + 1, j), (i, j + 1), (i + 1, j + 1), (i + 1, j - 1)]"

fun is_stroke :: "host_call \<Rightarrow> bool" where
  "is_stroke (StrokeLine x1 y1 x2 y2 a) = True"
| "is_stroke _ = False"

text \<open>
  The grid of a \<open>100 \<times> 100\<close> viewport, freshly built with every jitter zero: two columns of
  two rows, the points at \<open>(0, 0)\<close>, \<open>(50, 100)\<close>, \<open>(100, 0)\<close> and \<open>(150, 100)\<close>.
\<close>

definition small_grid :: engine where
  "small_grid = resize rnd_half 100 100 init_engine"

text \<open>Two points exactly \<open>maxDist\<close> apart.\<close>

definition left_end :: point where
  "left_end = \<lparr>px = 0, py = 0, ox = 0, oy = 0, vx = 0, vy = 0, col = 0, row = 0\<rparr>"

definition right_end :: point where
  "right_end = \<lparr>px = 180, py = 0, ox = 180, oy = 0, vx = 0, vy = 0, col = 1, row = 0\<rparr>"

text \<open>
  Whether the callback that runs at time \<open>now\<close> in state \<open>st\<close> does the physics and render
  pass: always when no scroll event came in the last 160 ms, and otherwise when the frame
  counter, after this callback has incremented it, is a multiple of 4.
\<close>

definition frame_work :: "int \<Rightarrow> engine \<Rightarrow> bool" where
  "frame_work now st \<longleftrightarrow> \<not> now - lastScrollTime st < 160 \<or> 4 dvd frameCount st + 1"

text \<open>The script after \<^verbatim>\<open>resize()\<close> in an empty viewport and two animation frames.\<close>

definition two_frames_in :: engine where
  "two_frames_in = run rnd_half [Resize 0 0, Frame 1000, Frame 1016] init_engine"

text \<open>The same script two frames later.\<close>

definition four_frames_in :: engine where
  "four_frames_in =
     run rnd_half [Resize 0 0, Frame 1000, Frame 1016, Frame 1032, Frame 1048] init_engine"

section \<open>The grid generator\<close>

lemma fold_push_row:
  "fold (\<lambda>j. push_point rnd i j) [0..<m] (ps, n) =
     (ps @ map (\<lambda>j. new_point rnd i j (n + 4 * j)) [0..<m], n + 4 * m)"
  by (induction m) (simp_all add: push_point_def)

lemma fold_push_grid:
  "fold (\<lambda>i. fold (\<lambda>j. push_point rnd i j) [0..<r]) [0..<c] (ps, n) =
     (ps @ concat (map (\<lambda>i. map (\<lambda>j. new_point rnd i j (n + 4 * (i * r + j))) [0..<r]) [0..<c]),
      n + 4 * (c * r))"
  by (induction c) (simp_all add: fold_push_row algebra_simps)

lemma length_grid_points: "length (grid_points rnd n c r) = c * r"
  by (induction c) (simp_all add: grid_points_def)

lemma nth_grid_points:
  "i < c \<Longrightarrow> j < r \<Longrightarrow> grid_points rnd n c r ! (i * r + j) = new_point rnd i j (n + 4 * (i * r + j))"
proof (induction c)
  case 0
  then show ?case by simp
next
  case (Suc c)
  have len: "length (grid_points rnd n c r) = c * r" by (rule length_grid_points)
  have unf: "grid_points rnd n (Suc c) r =
      grid_points rnd n c r @ map (\<lambda>j. new_point rnd c j (n + 4 * (c * r + j))) [0..<r]"
    by (simp add: grid_points_def)
  show ?case
  proof (cases "i < c")
    case True
    then have "Suc i * r \<le> c * r" by (intro mult_le_mono1) simp
    then have "i * r + j < c * r" using Suc.prems(2) by simp
    then show ?thesis using Suc.IH True Suc.prems(2) by (simp add: unf nth_append len)
  next
    case False
    then have "i = c" using Suc.prems(1) by simp
    then show ?thesis using Suc.prems(2) by (simp add: unf nth_append len)
  qed
qed

lemma points_initPoints:
  "points (initPoints rnd st) = grid_points rnd (draws st) (nat (cols st)) (nat (rows st))"
  by (simp add: initPoints_def Let_def fold_push_grid grid_points_def)

lemma cols_resize: "cols (resize rnd w h st) = \<lceil>w / spacing\<rceil> + 1"
  by (simp add: resize_def initPoints_def Let_def)

lemma rows_resize: "rows (resize rnd w h st) = \<lceil>h / spacing\<rceil> + 1"
  by (simp add: resize_def initPoints_def Let_def)

lemma points_resize:
  "points (resize rnd w h st) =
     grid_points rnd (draws st) (nat (\<lceil>w / spacing\<rceil> + 1)) (nat (\<lceil>h / spacing\<rceil> + 1))"
  by (simp add: resize_def points_initPoints)

lemma grid_points_cell:
  assumes "k < c * r"
  shows "grid_points rnd n c r ! k = new_point rnd (k div r) (k mod r) (n + 4 * k)"
proof -
  have r: "0 < r" using assms by (cases r) simp_all
  have "k div r < c" using assms r by (simp add: less_mult_imp_div_less)
  moreover have "k mod r < r" using r by simp
  ultimately have "grid_points rnd n c r ! (k div r * r + k mod r) =
      new_point rnd (k div r) (k mod r) (n + 4 * (k div r * r + k mod r))"
    by (rule nth_grid_points)
  then show ?thesis by simp
qed

lemma col_new_point: "col (new_point rnd i j n) = int i"
  and row_new_point: "row (new_point rnd i j n) = int j"
  by (simp_all add: new_point_def Let_def)

lemma grid_points_cells:
  "map (\<lambda>p. (col p, row p)) (grid_points rnd n c r) =
     map (\<lambda>k. (int (k div r), int (k mod r))) [0..<c * r]"
  by (rule nth_equalityI)
     (simp_all add: length_grid_points grid_points_cell col_new_point row_new_point)

lemma distinct_cells: "distinct (map (\<lambda>k. (int (k div r), int (k mod r))) [0..<c * r])"
proof -
  have "inj_on (\<lambda>k. (int (k div r), int (k mod r))) (set [0..<c * r])"
  proof (rule inj_onI)
    fix a b
    assume "(int (a div r), int (a mod r)) = (int (b div r), int (b mod r))"
    then have "a div r = b div r" "a mod r = b mod r" by simp_all
    then have "a div r * r + a mod r = b div r * r + b mod r" by simp
    then show "a = b" by simp
  qed
  then show ?thesis by (simp add: distinct_map)
qed

lemma ceiling_nonneg: "0 \<le> (w::real) \<Longrightarrow> 0 \<le> \<lceil>w / spacing\<rceil>"
  by (simp add: spacing_def)

text \<open>
  Claim C1. For a viewport of width \<open>w \<ge> 0\<close> and height \<open>h \<ge> 0\<close>, \<^verbatim>\<open>resize\<close> sets
  \<open>cols = \<lceil>w / spacing\<rceil> + 1\<close> and \<open>rows = \<lceil>h / spacing\<rceil> + 1\<close>, the array of points has
  \<open>cols * rows\<close> elements, no two points have the same \<open>(col, row)\<close> pair, and every pair
  lies in \<open>[0, cols) \<times> [0, rows)\<close>. For an \<open>800 \<times> 600\<close> viewport this gives 9 columns,
  7 rows and 63 points.
\<close>

theorem resize_builds_lattice:
  assumes "0 \<le> w" and "0 \<le> h"
  shows "cols (resize rnd w h st) = \<lceil>w / spacing\<rceil> + 1 \<and>
         rows (resize rnd w h st) = \<lceil>h / spacing\<rceil> + 1 \<and>
         int (length (points (resize rnd w h st))) =
           cols (resize rnd w h st) * rows (resize rnd w h st) \<and>
         distinct (map (\<lambda>p. (col p, row p)) (points (resize rnd w h st))) \<and>
         (\<forall>p \<in> set (points (resize rnd w h st)).
            0 \<le> col p \<and> col p < cols (resize rnd w h st) \<and>
            0 \<le> row p \<and> row p < rows (resize rnd w h st)) \<and>
         cols (resize rnd 800 600 st) = 9 \<and> rows (resize rnd 800 600 st) = 7 \<and>
         length (points (resize rnd 800 600 st)) = 63"
proof -
  let ?c = "nat (\<lceil>w / spacing\<rceil> + 1)" and ?r = "nat (\<lceil>h / spacing\<rceil> + 1)"
  have c: "int ?c = \<lceil>w / spacing\<rceil> + 1" and r: "int ?r = \<lceil>h / spacing\<rceil> + 1"
    using ceiling_nonneg [OF assms(1)] ceiling_nonneg [OF assms(2)] by simp_all
  have len: "int (length (points (resize rnd w h st))) =
      cols (resize rnd w h st) * rows (resize rnd w h st)"
    by (simp only: points_resize length_grid_points cols_resize rows_resize of_nat_mult c r)
  have dist: "distinct (map (\<lambda>p. (col p, row p)) (points (resize rnd w h st)))"
    by (simp only: points_resize grid_points_cells distinct_cells)
  have bounds: "\<forall>p \<in> set (points (resize rnd w h st)).
            0 \<le> col p \<and> col p < cols (resize rnd w h st) \<and>
            0 \<le> row p \<and> row p < rows (resize rnd w h st)"
  proof
    fix p assume "p \<in> set (points (resize rnd w h st))"
    then obtain k where k: "k < ?c * ?r" and p: "p = grid_points rnd (draws st) ?c ?r ! k"
      by (auto simp: points_resize in_set_conv_nth length_grid_points)
    have r0: "0 < ?r" using k by (cases ?r) simp_all
    have "k div ?r < ?c" using k r0 by (simp add: less_mult_imp_div_less)
    moreover have "k mod ?r < ?r" using r0 by simp
    ultimately have "int (k div ?r) < \<lceil>w / spacing\<rceil> + 1" "int (k mod ?r) < \<lceil>h / spacing\<rceil> + 1"
      using c r by linarith+
    then show "0 \<le> col p \<and> col p < cols (resize rnd w h st) \<and>
            0 \<le> row p \<and> row p < rows (resize rnd w h st)"
      by (simp add: p grid_points_cell [OF k] col_new_point row_new_point cols_resize rows_resize)
  qed
  have ex: "cols (resize rnd 800 600 st) = 9 \<and> rows (resize rnd 800 600 st) = 7 \<and>
         length (points (resize rnd 800 600 st)) = 63"
    by (simp add: cols_resize rows_resize points_resize length_grid_points spacing_def)
  show ?thesis using len dist bounds ex by (simp add: cols_resize rows_resize)
qed

theorem resize_builds_lattice_witness:
  "(0::real) \<le> 250 \<and> (0::real) \<le> 120 \<and>
   cols (resize rnd_half 250 120 init_engine) = 4 \<and>
   rows (resize rnd_half 250 120 init_engine) = 3 \<and>
   length (points (resize rnd_half 250 120 init_engine)) = 12 \<and>
   distinct (map (\<lambda>p. (col p, row p)) (points (resize rnd_half 250 120 init_engine)))"
proof -
  let ?st = "resize rnd_half 250 120 init_engine"
  have w: "(0::real) \<le> 250" and h: "(0::real) \<le> 120" by simp_all
  note g = resize_builds_lattice [OF w h, of rnd_half init_engine]
  have c: "cols ?st = 4" and r: "rows ?st = 3"
    using g by (simp_all add: spacing_def)
  have "int (length (points ?st)) = 12" using g c r by simp
  then have "length (points ?st) = 12" by linarith
  then show ?thesis using g c r by simp
qed

lemma nat_idx:
  assumes "0 \<le> i" and "0 \<le> j" and "0 \<le> r"
  shows "nat (idx r i j) = nat i * nat r + nat j"
  using assms by (simp add: idx_def nat_add_distrib nat_mult_distrib)

lemma jitter_range:
  fixes u :: real
  assumes "0 \<le> u" and "u < 1"
  shows "\<bar>u * 12 - 6\<bar> \<le> 6" and "\<bar>(u - 0.5) * 0.04\<bar> \<le> 0.02"
  using assms by (auto simp add: abs_if)

text \<open>
  Claim C9. For every cell \<open>(i, j)\<close> with \<open>0 \<le> i < cols\<close> and \<open>0 \<le> j < rows\<close>, the point that
  \<^verbatim>\<open>resize\<close> stores at index \<open>idx i j\<close> has \<open>col = i\<close> and \<open>row = j\<close>; a stagger of
  \<open>spacing / 2\<close> is added to its \<open>x\<close> exactly when \<open>j\<close> is odd; \<open>x = i * spacing + stagger + jx\<close>
  and \<open>y = j * spacing + jy\<close>, where \<open>jx = 12 * u - 6\<close> and \<open>jy = 12 * u' - 6\<close> for two
  separate draws \<open>u\<close>, \<open>u'\<close> of the random source; \<open>ox = x\<close> and \<open>oy = y\<close>, so that
  \<open>|x - ox| \<le> 6\<close> and \<open>|y - oy| \<le> 6\<close>; the velocity components are \<open>(u'' - 0.5) * 0.04\<close> for
  two further draws. The four draws of a point are consecutive and belong to no other
  point. When the source returns values in \<open>[0, 1)\<close>, each jitter lies in \<open>[-6, 6]\<close> and each
  velocity component in \<open>[-0.02, 0.02]\<close>.
\<close>

theorem initial_point_of_cell:
  assumes "0 \<le> i" and "i < cols (resize rnd w h st)"
    and "0 \<le> j" and "j < rows (resize rnd w h st)"
  shows
    "(let n = draws st + 4 * nat (idx (rows (resize rnd w h st)) i j);
          p = points (resize rnd w h st) ! nat (idx (rows (resize rnd w h st)) i j) in
       col p = i \<and> row p = j \<and>
       px p = real_of_int i * spacing + (if odd j then spacing / 2 else 0) + (rnd n * 12 - 6) \<and>
       py p = real_of_int j * spacing + (rnd (n + 1) * 12 - 6) \<and>
       ox p = px p \<and> oy p = py p \<and> \<bar>px p - ox p\<bar> \<le> 6 \<and> \<bar>py p - oy p\<bar> \<le> 6 \<and>
       vx p = (rnd (n + 2) - 0.5) * 0.04 \<and>
       vy p = (rnd (n + 3) - 0.5) * 0.04 \<and>
       ((\<forall>m. 0 \<le> rnd m \<and> rnd m < 1) \<longrightarrow>
          \<bar>rnd n * 12 - 6\<bar> \<le> 6 \<and> \<bar>rnd (n + 1) * 12 - 6\<bar> \<le> 6 \<and>
          \<bar>vx p\<bar> \<le> 0.02 \<and> \<bar>vy p\<bar> \<le> 0.02))"
proof -
  let ?c = "nat (\<lceil>w / spacing\<rceil> + 1)" and ?r = "nat (\<lceil>h / spacing\<rceil> + 1)"
  let ?k = "nat (idx (rows (resize rnd w h st)) i j)"
  have "i < \<lceil>w / spacing\<rceil> + 1" and "j < \<lceil>h / spacing\<rceil> + 1"
    using assms(2,4) by (simp_all only: cols_resize rows_resize)
  then have i: "nat i < ?c" and j: "nat j < ?r"
    using assms(1,3) by (simp_all only: nat_less_eq_zless)
  have r: "0 \<le> rows (resize rnd w h st)" using assms(3,4) by linarith
  have k: "?k = nat i * ?r + nat j"
    using nat_idx [OF assms(1) assms(3) r] by (simp add: rows_resize)
  have p: "points (resize rnd w h st) ! ?k = new_point rnd (nat i) (nat j) (draws st + 4 * ?k)"
    unfolding points_resize k by (rule nth_grid_points [OF i j])
  have odd: "(nat j mod 2 = 0) = even j"
    using assms(3) by (metis even_nat_iff even_iff_mod_2_eq_zero)
  let ?n = "draws st + 4 * ?k"
  have fields: "col (new_point rnd (nat i) (nat j) ?n) = i \<and> row (new_point rnd (nat i) (nat j) ?n) = j \<and>
      px (new_point rnd (nat i) (nat j) ?n) =
        real_of_int i * spacing + (if odd j then spacing / 2 else 0) + (rnd ?n * 12 - 6) \<and>
      py (new_point rnd (nat i) (nat j) ?n) = real_of_int j * spacing + (rnd (?n + 1) * 12 - 6) \<and>
      ox (new_point rnd (nat i) (nat j) ?n) = px (new_point rnd (nat i) (nat j) ?n) \<and>
      oy (new_point rnd (nat i) (nat j) ?n) = py (new_point rnd (nat i) (nat j) ?n) \<and>
      vx (new_point rnd (nat i) (nat j) ?n) = (rnd (?n + 2) - 0.5) * 0.04 \<and>
      vy (new_point rnd (nat i) (nat j) ?n) = (rnd (?n + 3) - 0.5) * 0.04"
    using assms(1,3) by (simp add: new_point_def Let_def stagger_def odd)
  have range: "\<bar>rnd ?n * 12 - 6\<bar> \<le> 6 \<and> \<bar>rnd (?n + 1) * 12 - 6\<bar> \<le> 6 \<and>
      \<bar>(rnd (?n + 2) - 0.5) * 0.04\<bar> \<le> 0.02 \<and> \<bar>(rnd (?n + 3) - 0.5) * 0.04\<bar> \<le> 0.02"
    if "\<forall>m. 0 \<le> rnd m \<and> rnd m < 1"
    using that jitter_range [of "rnd ?n"] jitter_range [of "rnd (?n + 1)"]
      jitter_range [of "rnd (?n + 2)"] jitter_range [of "rnd (?n + 3)"]
    by blast
  have range': "\<bar>rnd ?n * 12 - 6\<bar> \<le> 6 \<and> \<bar>rnd (?n + 1) * 12 - 6\<bar> \<le> 6 \<and>
      \<bar>vx (new_point rnd (nat i) (nat j) ?n)\<bar> \<le> 0.02 \<and>
      \<bar>vy (new_point rnd (nat i) (nat j) ?n)\<bar> \<le> 0.02"
    if "\<forall>m. 0 \<le> rnd m \<and> rnd m < 1"
    using range [OF that] fields by presburger
  have same: "\<bar>px (new_point rnd (nat i) (nat j) ?n) - ox (new_point rnd (nat i) (nat j) ?n)\<bar> \<le> 6 \<and>
      \<bar>py (new_point rnd (nat i) (nat j) ?n) - oy (new_point rnd (nat i) (nat j) ?n)\<bar> \<le> 6"
    by (simp add: new_point_def Let_def)
  show ?thesis
    unfolding Let_def p using fields range' same by blast
qed

theorem initial_point_of_cell_witness:
  "(0::int) \<le> 1 \<and> 1 < cols (resize rnd_half 150 120 init_engine) \<and>
   (0::int) \<le> 1 \<and> 1 < rows (resize rnd_half 150 120 init_engine) \<and>
   (\<forall>m. 0 \<le> rnd_half m \<and> rnd_half m < 1) \<and>
   px (points (resize rnd_half 150 120 init_engine) ! 4) = 150 \<and>
   py (points (resize rnd_half 150 120 init_engine) ! 4) = 100 \<and>
   vx (points (resize rnd_half 150 120 init_engine) ! 4) = 0 \<and>
   \<bar>vy (points (resize rnd_half 150 120 init_engine) ! 4)\<bar> \<le> 0.02"
proof -
  let ?st = "resize rnd_half 150 120 init_engine"
  have c: "cols ?st = 3" and r: "rows ?st = 3"
    by (simp_all add: cols_resize rows_resize spacing_def)
  have k: "nat (idx 3 1 1) = 4" by (simp add: idx_def)
  have h: "(0::int) \<le> 1" "1 < cols ?st" "1 < rows ?st" by (simp_all add: c r)
  have u: "\<forall>m. 0 \<le> rnd_half m \<and> rnd_half m < 1" by (simp add: rnd_half_def)
  show ?thesis
    using initial_point_of_cell [OF h(1) h(2) h(1) h(3)] u
    by (simp add: k Let_def c r spacing_def rnd_half_def)
qed

section \<open>The physics tick\<close>

lemma update_point_free:
  "update_point m r1 r2 p =
     mouse_repel m
       (spec_jitter ((r1 - 0.5) * 0.00008) ((r2 - 0.5) * 0.00008)
          (spec_restore (spec_integrate p)))"
  by (simp add: update_point_def spec_jitter_def spec_restore_def spec_integrate_def Let_def)

lemma mouse_repel_spec: "mouse_repel m p = spec_repulsion (pointer_of m) p"
  by (simp add: mouse_repel_def spec_repulsion_def pointer_of_def pointer_dist_def js_or_def
      repel_force_def Let_def power2_eq_square split: option.splits)

lemma update_point_steps:
  "update_point m r1 r2 p =
     spec_repulsion (pointer_of m)
       (spec_jitter ((r1 - 0.5) * 0.00008) ((r2 - 0.5) * 0.00008)
          (spec_restore (spec_integrate p)))"
  by (simp only: update_point_free mouse_repel_spec)

lemma update_points_length: "length (fst (update_points m rnd n ps)) = length ps"
  by (induction ps arbitrary: n) (simp_all add: Let_def)

lemma update_points_draws: "snd (update_points m rnd n ps) = n + 2 * length ps"
  by (induction ps arbitrary: n) (simp_all add: Let_def)

lemma update_points_nth:
  "k < length ps \<Longrightarrow>
     fst (update_points m rnd n ps) ! k =
       update_point m (rnd (n + 2 * k)) (rnd (n + 2 * k + 1)) (ps ! k)"
proof (induction ps arbitrary: n k)
  case Nil
  then show ?case by simp
next
  case (Cons p ps)
  show ?case
  proof (cases k)
    case 0
    then show ?thesis by (simp add: Let_def)
  next
    case (Suc k')
    then have "k' < length ps" using Cons.prems by simp
    from Cons.IH [OF this, of "n + 2"] show ?thesis by (simp add: Let_def Suc)
  qed
qed

lemma jitter_small:
  fixes u :: real
  assumes "0 \<le> u" and "u < 1"
  shows "\<bar>(u - 0.5) * 0.00008\<bar> \<le> 0.00004"
  using assms by (auto simp add: abs_if)

text \<open>
  Claim C2. One tick changes a point in four steps, in this order: the position is
  integrated (\<open>x += vx\<close>, \<open>y += vy\<close>); the restoring force is added to the velocity
  (\<open>vx += (ox - x) * 0.00012\<close>, likewise \<open>vy\<close>), reading the integrated position; a jitter
  \<open>(u - 0.5) * 0.00008\<close> is added to each velocity component, each from a draw \<open>u\<close> of its
  own, which lies in \<open>[-0.00004, 0.00004]\<close> when \<open>u\<close> is in \<open>[0, 1)\<close>; last the pointer
  repulsion, which leaves the point alone when the pointer is absent. \<^verbatim>\<open>update\<close> does this
  to every point of the grid, the \<open>k\<close>-th point with the draws \<open>2k\<close> and \<open>2k + 1\<close> of the tick.
\<close>

theorem tick_order:
  "update_point m r1 r2 p =
     spec_repulsion (pointer_of m)
       (spec_jitter ((r1 - 0.5) * 0.00008) ((r2 - 0.5) * 0.00008)
          (spec_restore (spec_integrate p))) \<and>
   (0 \<le> r1 \<and> r1 < 1 \<longrightarrow> \<bar>(r1 - 0.5) * 0.00008\<bar> \<le> 0.00004) \<and>
   (0 \<le> r2 \<and> r2 < 1 \<longrightarrow> \<bar>(r2 - 0.5) * 0.00008\<bar> \<le> 0.00004) \<and>
   (pointer_of m = None) = (mouse_x m = None) \<and>
   (mouse_x m = None \<longrightarrow>
      update_point m r1 r2 p =
        spec_jitter ((r1 - 0.5) * 0.00008) ((r2 - 0.5) * 0.00008)
          (spec_restore (spec_integrate p))) \<and>
   length (points (update rnd st)) = length (points st) \<and>
   (\<forall>k < length (points st).
      points (update rnd st) ! k =
        update_point (mouse st) (rnd (draws st + 2 * k)) (rnd (draws st + 2 * k + 1))
          (points st ! k))"
proof -
  have none: "(pointer_of m = None) = (mouse_x m = None)"
    by (simp add: pointer_of_def split: option.splits)
  have absent: "update_point m r1 r2 p =
        spec_jitter ((r1 - 0.5) * 0.00008) ((r2 - 0.5) * 0.00008)
          (spec_restore (spec_integrate p))" if "mouse_x m = None"
    using that none by (simp add: update_point_steps spec_repulsion_def)
  have len: "length (points (update rnd st)) = length (points st)"
    by (simp add: update_def Let_def update_points_length)
  have nth: "\<forall>k < length (points st).
      points (update rnd st) ! k =
        update_point (mouse st) (rnd (draws st + 2 * k)) (rnd (draws st + 2 * k + 1))
          (points st ! k)"
    by (simp add: update_def Let_def update_points_nth)
  show ?thesis
    using update_point_steps [of m r1 r2 p] jitter_small [of r1] jitter_small [of r2]
      none absent len nth
    by blast
qed

theorem tick_order_witness:
  "(0::real) \<le> 1/2 \<and> (1/2::real) < 1 \<and> mouse_x no_mouse = None \<and>
   update_point no_mouse (1/2) (1/2) sample_point =
     \<lparr>px = 11, py = 19, ox = 12, oy = 20, vx = 1.00012, vy = -0.99988, col = 0, row = 0\<rparr> \<and>
   (0::nat) < length (points (init_engine\<lparr>points := [sample_point]\<rparr>)) \<and>
   points (update rnd_half (init_engine\<lparr>points := [sample_point]\<rparr>)) ! 0 =
     \<lparr>px = 11, py = 19, ox = 12, oy = 20, vx = 1.00012, vy = -0.99988, col = 0, row = 0\<rparr>"
  using tick_order [of no_mouse "1/2" "1/2" sample_point rnd_half "init_engine\<lparr>points := [sample_point]\<rparr>"]
  by (simp add: no_mouse_def sample_point_def spec_repulsion_def spec_jitter_def spec_restore_def spec_integrate_def
      init_engine_def rnd_half_def)

lemma update_point_frame:
  "ox (update_point m r1 r2 p) = ox p" "oy (update_point m r1 r2 p) = oy p"
  "col (update_point m r1 r2 p) = col p" "row (update_point m r1 r2 p) = row p"
  by (simp_all add: update_point_free mouse_repel_def spec_jitter_def spec_restore_def
      spec_integrate_def Let_def split: option.splits)

lemma update_points_frame:
  "map ox (fst (update_points m rnd n ps)) = map ox ps"
  "map oy (fst (update_points m rnd n ps)) = map oy ps"
  "map col (fst (update_points m rnd n ps)) = map col ps"
  "map row (fst (update_points m rnd n ps)) = map row ps"
  by (induction ps arbitrary: n) (simp_all add: Let_def update_point_frame)

text \<open>
  Claim C10. A tick writes only the fields \<open>x\<close>, \<open>y\<close>, \<open>vx\<close>, \<open>vy\<close> of the points: the number of
  points and every point's \<open>ox\<close>, \<open>oy\<close>, \<open>col\<close> and \<open>row\<close> are as before, and of the engine only
  the array of points and the count of draws change.
\<close>

theorem update_frame:
  "length (points (update rnd st)) = length (points st) \<and>
   map ox (points (update rnd st)) = map ox (points st) \<and>
   map oy (points (update rnd st)) = map oy (points st) \<and>
   map col (points (update rnd st)) = map col (points st) \<and>
   map row (points (update rnd st)) = map row (points st) \<and>
   update rnd st = st\<lparr>points := points (update rnd st), draws := draws (update rnd st)\<rparr>"
  by (simp add: update_def Let_def update_points_length update_points_frame)

section \<open>Pointer repulsion\<close>

lemma js_or_pos: "0 \<le> a \<Longrightarrow> 0 < js_or a 1"
  by (auto simp add: js_or_def)

lemma pointer_dist_pos: "0 < pointer_dist dx dy"
  unfolding pointer_dist_def by (rule js_or_pos) simp

lemma pointer_dist_zero: "pointer_dist 0 0 = 1"
  by (simp add: pointer_dist_def js_or_def)

lemma unit_push_aux:
  fixes dx dy c s :: real
  assumes "s \<noteq> 0" and "s * s = dx * dx + dy * dy"
  shows "(dx / s * c)\<^sup>2 + (dy / s * c)\<^sup>2 = c\<^sup>2"
proof -
  have "(dx / s * c)\<^sup>2 + (dy / s * c)\<^sup>2 = c\<^sup>2 * (dx * dx + dy * dy) / (s * s)"
    by (simp add: power2_eq_square algebra_simps add_divide_distrib)
  also have "\<dots> = c\<^sup>2" using assms by (simp only: assms(2) [symmetric]) simp
  finally show ?thesis .
qed

lemma unit_push:
  fixes dx dy c :: real
  assumes "sqrt (dx * dx + dy * dy) \<noteq> 0"
  shows "sqrt ((dx / sqrt (dx * dx + dy * dy) * c)\<^sup>2 + (dy / sqrt (dx * dx + dy * dy) * c)\<^sup>2) = \<bar>c\<bar>"
proof -
  have "sqrt (dx * dx + dy * dy) * sqrt (dx * dx + dy * dy) = dx * dx + dy * dy"
    by simp
  from unit_push_aux [OF assms this] show ?thesis by (simp only: real_sqrt_abs)
qed

lemma repel_force_range:
  assumes "0 < d" and "d < maxDist"
  shows "0 < repel_force d" and "repel_force d * 0.9 \<le> 0.54"
  using assms by (simp_all add: repel_force_def maxDist_def)

lemma push_bounded:
  fixes dx dy :: real
  assumes "pointer_dist dx dy < maxDist"
  shows "sqrt ((dx / pointer_dist dx dy * repel_force (pointer_dist dx dy) * 0.9)\<^sup>2 +
               (dy / pointer_dist dx dy * repel_force (pointer_dist dx dy) * 0.9)\<^sup>2) \<le> 0.54"
proof (cases "sqrt (dx * dx + dy * dy) = 0")
  case True
  then have "dx * dx + dy * dy = 0" by simp
  then have "dx = 0" and "dy = 0" by (simp_all add: sum_squares_eq_zero_iff)
  then show ?thesis by simp
next
  case False
  let ?s = "sqrt (dx * dx + dy * dy)"
  have d: "pointer_dist dx dy = ?s" using False by (simp add: pointer_dist_def js_or_def)
  let ?c = "repel_force ?s * 0.9"
  have pos: "0 < ?s" using pointer_dist_pos [of dx dy] by (simp only: d)
  have lt: "?s < maxDist" using assms by (simp only: d)
  have "sqrt ((dx / ?s * ?c)\<^sup>2 + (dy / ?s * ?c)\<^sup>2) = \<bar>?c\<bar>"
    by (rule unit_push [OF False])
  moreover have "\<bar>?c\<bar> \<le> 0.54"
    using repel_force_range [OF pos lt] by simp
  ultimately show ?thesis by (simp add: d mult.assoc)
qed

lemma mouse_repel_velocity:
  "vx (mouse_repel m p) = vx p" "vy (mouse_repel m p) = vy p"
  by (simp_all add: mouse_repel_def Let_def split: option.splits)

lemma mouse_repel_bounded:
  "sqrt ((px (mouse_repel m p) - px p)\<^sup>2 + (py (mouse_repel m p) - py p)\<^sup>2) \<le> 0.54"
proof (cases "mouse_x m")
  case None
  then show ?thesis by (simp add: mouse_repel_def)
next
  case (Some mx)
  let ?dx = "px p - mx" and ?dy = "py p - js_num (mouse_y m)"
  show ?thesis
  proof (cases "pointer_dist ?dx ?dy < maxDist")
    case True
    then show ?thesis using push_bounded [OF True]
      by (simp add: mouse_repel_def Some Let_def)
  next
    case False
    then show ?thesis by (simp add: mouse_repel_def Some Let_def)
  qed
qed

lemma mouse_repel_no_mouse: "mouse_repel no_mouse q = q"
  by (simp add: mouse_repel_def no_mouse_def)

lemma update_point_no_mouse:
  "update_point m r1 r2 p = mouse_repel m (update_point no_mouse r1 r2 p)"
  by (simp only: update_point_free mouse_repel_no_mouse)

text \<open>
  Claim C6. Whatever the point and the pointer, the pointer block of one tick moves the
  point by at most \<open>0.6 * 0.9 = 0.54\<close> units: the distance between the point's position
  after the tick and the position it would have after the same tick with no pointer is at
  most \<open>0.54\<close>. The block leaves the velocity alone; it moves the position only when the
  pointer is present and \<open>dist < 180\<close>, by \<open>(dx / dist, dy / dist) * force * 0.9\<close> with
  \<open>force = (180 - dist) / 180 * 0.6\<close>.
\<close>

theorem repulsion_bounded:
  "sqrt ((px (update_point m r1 r2 p) - px (update_point no_mouse r1 r2 p))\<^sup>2 +
         (py (update_point m r1 r2 p) - py (update_point no_mouse r1 r2 p))\<^sup>2) \<le> 0.6 * 0.9 \<and>
   vx (update_point m r1 r2 p) = vx (update_point no_mouse r1 r2 p) \<and>
   vy (update_point m r1 r2 p) = vy (update_point no_mouse r1 r2 p) \<and>
   update_point m r1 r2 p =
     (let q = update_point no_mouse r1 r2 p in
      case mouse_x m of
        None \<Rightarrow> q
      | Some mx \<Rightarrow>
          (let dx = px q - mx; dy = py q - js_num (mouse_y m); d = pointer_dist dx dy
           in if d < 180
              then q\<lparr>px := px q + dx / d * ((180 - d) / 180 * 0.6) * 0.9,
                     py := py q + dy / d * ((180 - d) / 180 * 0.6) * 0.9\<rparr>
              else q))"
proof -
  let ?q = "update_point no_mouse r1 r2 p"
  have eq: "update_point m r1 r2 p = mouse_repel m ?q" by (rule update_point_no_mouse)
  have bound: "sqrt ((px (mouse_repel m ?q) - px ?q)\<^sup>2 + (py (mouse_repel m ?q) - py ?q)\<^sup>2) \<le> 0.6 * 0.9"
    using mouse_repel_bounded [of m ?q] by simp
  have block: "mouse_repel m ?q =
     (let q = ?q in
      case mouse_x m of
        None \<Rightarrow> q
      | Some mx \<Rightarrow>
          (let dx = px q - mx; dy = py q - js_num (mouse_y m); d = pointer_dist dx dy
           in if d < 180
              then q\<lparr>px := px q + dx / d * ((180 - d) / 180 * 0.6) * 0.9,
                     py := py q + dy / d * ((180 - d) / 180 * 0.6) * 0.9\<rparr>
              else q))"
    by (simp add: mouse_repel_def [of m] repel_force_def maxDist_def Let_def split: option.splits)
  show ?thesis
    unfolding eq by (intro conjI bound block mouse_repel_velocity)
qed

text \<open>
  Claim C5, amended. When the pointer is exactly where the point is when the pointer block
  runs, the raw distance is \<open>0\<close> and the block takes \<open>dist = 1\<close>; the force is
  \<open>(180 - 1) / 180 * 0.6\<close>, about \<open>0.5967\<close>, and \<open>force * 0.9 = 0.537\<close>; the displacement is
  \<open>0.537 * (dx / 1, dy / 1)\<close> with \<open>dx = dy = 0\<close>, so the point is not moved at all. No
  division by zero occurs: the only divisor is \<open>dist\<close>, which is positive.
\<close>

theorem pointer_on_point:
  assumes "mouse_x m = Some (px (update_point no_mouse r1 r2 p))"
    and "mouse_y m = Some (py (update_point no_mouse r1 r2 p))"
  shows "pointer_dist (px (update_point no_mouse r1 r2 p) - px (update_point no_mouse r1 r2 p))
           (py (update_point no_mouse r1 r2 p) - py (update_point no_mouse r1 r2 p)) = 1 \<and>
         repel_force 1 = (180 - 1) / 180 * 0.6 \<and>
         \<bar>repel_force 1 - 0.5967\<bar> < 0.0001 \<and>
         repel_force 1 * 0.9 = 0.537 \<and>
         px (update_point m r1 r2 p) =
           px (update_point no_mouse r1 r2 p) + (0 / 1) * repel_force 1 * 0.9 \<and>
         py (update_point m r1 r2 p) =
           py (update_point no_mouse r1 r2 p) + (0 / 1) * repel_force 1 * 0.9 \<and>
         update_point m r1 r2 p = update_point no_mouse r1 r2 p"
proof -
  let ?q = "update_point no_mouse r1 r2 p"
  have f: "repel_force 1 = (180 - 1) / 180 * 0.6 \<and> \<bar>repel_force 1 - 0.5967\<bar> < 0.0001 \<and>
      repel_force 1 * 0.9 = 0.537"
    by (simp add: repel_force_def maxDist_def)
  have d: "pointer_dist (px ?q - px ?q) (py ?q - py ?q) = 1"
    by (simp add: pointer_dist_zero)
  have "mouse_repel m ?q = ?q"
    using assms by (simp add: mouse_repel_def js_num_def pointer_dist_zero maxDist_def Let_def)
  then have same: "update_point m r1 r2 p = ?q"
    by (simp only: update_point_no_mouse [of m])
  show ?thesis using f d same by simp
qed

theorem pointer_on_point_witness:
  "mouse_x mouse_on_rest_point = Some (px (update_point no_mouse (1/2) (1/2) rest_point)) \<and>
   mouse_y mouse_on_rest_point = Some (py (update_point no_mouse (1/2) (1/2) rest_point)) \<and>
   update_point mouse_on_rest_point (1/2) (1/2) rest_point = rest_point"
proof -
  have q: "update_point no_mouse (1/2) (1/2) rest_point = rest_point"
    by (simp add: update_point_free mouse_repel_no_mouse spec_jitter_def spec_restore_def
        spec_integrate_def rest_point_def)
  have x: "mouse_x mouse_on_rest_point = Some (px (update_point no_mouse (1/2) (1/2) rest_point))"
    and y: "mouse_y mouse_on_rest_point = Some (py (update_point no_mouse (1/2) (1/2) rest_point))"
    by (simp_all add: q) (simp_all add: rest_point_def mouse_on_rest_point_def)
  show ?thesis using pointer_on_point [OF x y] x y q by simp
qed

text \<open>
  The claim as stated promises a displacement of about \<open>0.537\<close> units. With the pointer on
  a point at rest at \<open>(5, 7)\<close> the tick leaves the point at \<open>(5, 7)\<close>: the displacement is \<open>0\<close>.
\<close>

theorem pointer_on_point_counterexample:
  "px (update_point mouse_on_rest_point (1/2) (1/2) rest_point) = px rest_point \<and>
   py (update_point mouse_on_rest_point (1/2) (1/2) rest_point) = py rest_point \<and>
   px rest_point = 5 \<and> py rest_point = 7 \<and>
   mouse_x mouse_on_rest_point = Some 5 \<and> mouse_y mouse_on_rest_point = Some 7 \<and>
   sqrt ((px (update_point mouse_on_rest_point (1/2) (1/2) rest_point) - px rest_point)\<^sup>2 +
         (py (update_point mouse_on_rest_point (1/2) (1/2) rest_point) - py rest_point)\<^sup>2) = 0 \<and>
   \<not> 0.5 < sqrt ((px (update_point mouse_on_rest_point (1/2) (1/2) rest_point) - px rest_point)\<^sup>2 +
         (py (update_point mouse_on_rest_point (1/2) (1/2) rest_point) - py rest_point)\<^sup>2)"
proof -
  have "update_point mouse_on_rest_point (1/2) (1/2) rest_point = rest_point"
    by (simp add: update_point_free mouse_repel_def spec_jitter_def spec_restore_def
        spec_integrate_def rest_point_def mouse_on_rest_point_def js_num_def pointer_dist_zero
        maxDist_def Let_def)
  then show ?thesis by (simp add: rest_point_def mouse_on_rest_point_def)
qed

section \<open>Rest seeking\<close>

lemma spring_step: "spring (d + v) (v - 0.00012 * (d + v)) = spring d v"
  by (simp add: spring_def power2_eq_square algebra_simps)

lemma spring_bound: "0.00012 * (1 - 0.00003) * d\<^sup>2 \<le> spring d v"
proof -
  have "spring d v - 0.00012 * (1 - 0.00003) * d\<^sup>2 = (v + 0.00006 * d)\<^sup>2"
    by (simp add: spring_def power2_eq_square algebra_simps)
  moreover have "0 \<le> (v + 0.00006 * d)\<^sup>2" by simp
  ultimately show ?thesis by linarith
qed

lemma abs_le_spring: "\<bar>d\<bar> \<le> sqrt (spring d v / (0.00012 * (1 - 0.00003)))"
proof -
  have "d\<^sup>2 \<le> spring d v / (0.00012 * (1 - 0.00003))"
    using spring_bound [of d v] by (simp add: field_simps)
  then have "sqrt (d\<^sup>2) \<le> sqrt (spring d v / (0.00012 * (1 - 0.00003)))"
    by (simp only: real_sqrt_le_iff)
  then show ?thesis by (simp only: real_sqrt_abs)
qed

lemma free_tick_fields:
  "px (update_point no_mouse (1/2) (1/2) p) = px p + vx p"
  "py (update_point no_mouse (1/2) (1/2) p) = py p + vy p"
  "vx (update_point no_mouse (1/2) (1/2) p) = vx p - 0.00012 * (px p + vx p - ox p)"
  "vy (update_point no_mouse (1/2) (1/2) p) = vy p - 0.00012 * (py p + vy p - oy p)"
  "ox (update_point no_mouse (1/2) (1/2) p) = ox p"
  "oy (update_point no_mouse (1/2) (1/2) p) = oy p"
  by (simp_all add: update_point_free mouse_repel_no_mouse spec_jitter_def spec_restore_def
      spec_integrate_def field_simps)

lemma free_tick_spring:
  "spring_x (update_point no_mouse (1/2) (1/2) p) = spring_x p"
  "spring_y (update_point no_mouse (1/2) (1/2) p) = spring_y p"
  using spring_step [of "px p - ox p" "vx p"] spring_step [of "py p - oy p" "vy p"]
  by (simp_all add: spring_x_def spring_y_def free_tick_fields algebra_simps)

lemma free_ticks_spring:
  "spring_x ((update_point no_mouse (1/2) (1/2) ^^ n) p) = spring_x p"
  "spring_y ((update_point no_mouse (1/2) (1/2) ^^ n) p) = spring_y p"
  by (induction n) (simp_all add: free_tick_spring)

lemma update_point_absent:
  "mouse_x m = None \<Longrightarrow> update_point m r1 r2 p = update_point no_mouse r1 r2 p"
  by (simp add: update_point_free mouse_repel_def no_mouse_def)

lemma update_points_half:
  "mouse_x m = None \<Longrightarrow>
     fst (update_points m rnd_half n ps) = map (update_point no_mouse (1/2) (1/2)) ps"
  by (induction ps arbitrary: n) (simp_all add: Let_def rnd_half_def update_point_absent)

lemma mouse_update: "mouse (update rnd st) = mouse st"
  by (simp add: update_def Let_def)

lemma mouse_updates: "mouse ((update rnd ^^ n) st) = mouse st"
  by (induction n) (simp_all add: mouse_update)

lemma points_updates_half:
  assumes "mouse_x (mouse st) = None"
  shows "points ((update rnd_half ^^ n) st) =
           map (update_point no_mouse (1/2) (1/2) ^^ n) (points st)"
proof (induction n)
  case 0
  show ?case by simp
next
  case (Suc n)
  have "mouse_x (mouse ((update rnd_half ^^ n) st)) = None"
    using assms by (simp only: mouse_updates)
  then have "points (update rnd_half ((update rnd_half ^^ n) st)) =
      map (update_point no_mouse (1/2) (1/2)) (points ((update rnd_half ^^ n) st))"
    by (simp add: update_def Let_def update_points_half)
  then show ?case by (simp add: Suc.IH)
qed

text \<open>
  Claim C3, amended. With the pointer absent and the jitter zero (every draw is \<open>1/2\<close>), a
  tick is a step of an undamped spring: on each axis the quantity
  \<open>v\<^sup>2 + k * d * v + k * d\<^sup>2\<close> (\<open>d\<close> the displacement from rest, \<open>v\<close> the velocity, \<open>k = 0.00012\<close>)
  is the same after any number of ticks. So for every point \<open>|x - ox| + |y - oy|\<close> never
  diverges: after any number of ticks it is at most a bound fixed by the state before the
  first tick.
\<close>

theorem rest_seeking_bounded:
  assumes "mouse_x (mouse st) = None" and "k < length (points st)"
  shows "spring_x (points ((update rnd_half ^^ n) st) ! k) = spring_x (points st ! k) \<and>
         spring_y (points ((update rnd_half ^^ n) st) ! k) = spring_y (points st ! k) \<and>
         \<bar>px (points ((update rnd_half ^^ n) st) ! k) - ox (points ((update rnd_half ^^ n) st) ! k)\<bar> +
         \<bar>py (points ((update rnd_half ^^ n) st) ! k) - oy (points ((update rnd_half ^^ n) st) ! k)\<bar>
           \<le> sqrt (spring_x (points st ! k) / (0.00012 * (1 - 0.00003))) +
              sqrt (spring_y (points st ! k) / (0.00012 * (1 - 0.00003)))"
proof -
  let ?p = "points st ! k"
  let ?q = "(update_point no_mouse (1/2) (1/2) ^^ n) ?p"
  have q: "points ((update rnd_half ^^ n) st) ! k = ?q"
    using assms(2) by (simp add: points_updates_half [OF assms(1)])
  have sx: "spring_x ?q = spring_x ?p" and sy: "spring_y ?q = spring_y ?p"
    by (rule free_ticks_spring)+
  have "\<bar>px ?q - ox ?q\<bar> \<le> sqrt (spring_x ?q / (0.00012 * (1 - 0.00003)))"
    unfolding spring_x_def by (rule abs_le_spring)
  moreover have "\<bar>py ?q - oy ?q\<bar> \<le> sqrt (spring_y ?q / (0.00012 * (1 - 0.00003)))"
    unfolding spring_y_def by (rule abs_le_spring)
  ultimately have "\<bar>px ?q - ox ?q\<bar> + \<bar>py ?q - oy ?q\<bar>
      \<le> sqrt (spring_x ?p / (0.00012 * (1 - 0.00003))) +
         sqrt (spring_y ?p / (0.00012 * (1 - 0.00003)))"
    unfolding sx sy by (rule add_mono)
  then show ?thesis unfolding q using sx sy by blast
qed

theorem rest_seeking_bounded_witness:
  "mouse_x (mouse drifting_engine) = None \<and> (0::nat) < length (points drifting_engine) \<and>
   spring_x (points ((update rnd_half ^^ 2) drifting_engine) ! 0) = 0.0001 \<and>
   \<bar>px (points ((update rnd_half ^^ 2) drifting_engine) ! 0) -
     ox (points ((update rnd_half ^^ 2) drifting_engine) ! 0)\<bar> +
   \<bar>py (points ((update rnd_half ^^ 2) drifting_engine) ! 0) -
     oy (points ((update rnd_half ^^ 2) drifting_engine) ! 0)\<bar>
     \<le> sqrt (0.0001 / (0.00012 * (1 - 0.00003))) + sqrt (0 / (0.00012 * (1 - 0.00003)))"
proof -
  have m: "mouse_x (mouse drifting_engine) = None"
    and k: "(0::nat) < length (points drifting_engine)"
    by (simp_all add: drifting_engine_def init_engine_def)
  have p: "points drifting_engine ! 0 = drifting_point"
    by (simp add: drifting_engine_def)
  have sx: "spring_x drifting_point = 0.0001" and sy: "spring_y drifting_point = 0"
    by (simp_all add: spring_x_def spring_y_def spring_def drifting_point_def power2_eq_square)
  show ?thesis
    using rest_seeking_bounded [OF m k, of 2] m k by (simp only: p sx sy)
qed

text \<open>
  The claim as stated promises a strict decrease. A point at its rest position with velocity
  \<open>(0.01, 0)\<close> has \<open>|x - ox| + |y - oy| = 0\<close>; after one tick without pointer the sum is
  \<open>0.01\<close>, whether the draws are all \<open>1/2\<close> (jitter zero) or all \<open>0\<close>.
\<close>

theorem rest_seeking_counterexample:
  "mouse_x (mouse drifting_engine) = None \<and>
   \<bar>px (points drifting_engine ! 0) - ox (points drifting_engine ! 0)\<bar> +
   \<bar>py (points drifting_engine ! 0) - oy (points drifting_engine ! 0)\<bar> = 0 \<and>
   \<bar>px (points (update rnd_half drifting_engine) ! 0) -
     ox (points (update rnd_half drifting_engine) ! 0)\<bar> +
   \<bar>py (points (update rnd_half drifting_engine) ! 0) -
     oy (points (update rnd_half drifting_engine) ! 0)\<bar> = 0.01 \<and>
   \<bar>px (points (update (\<lambda>n. 0) drifting_engine) ! 0) -
     ox (points (update (\<lambda>n. 0) drifting_engine) ! 0)\<bar> +
   \<bar>py (points (update (\<lambda>n. 0) drifting_engine) ! 0) -
     oy (points (update (\<lambda>n. 0) drifting_engine) ! 0)\<bar> = 0.01"
  by (simp add: drifting_engine_def init_engine_def drifting_point_def update_def Let_def
      rnd_half_def update_point_free mouse_repel_def spec_jitter_def spec_restore_def
      spec_integrate_def)

section \<open>The renderer\<close>

text \<open>
  \<^verbatim>\<open>resize\<close> establishes the grid invariant, whatever the viewport, and no handler breaks it:
  a tick keeps \<open>col\<close> and \<open>row\<close> of every point, and the other handlers do not touch the grid.
\<close>

lemma lattice_length: "lattice st \<Longrightarrow> length (points st) = nat (cols st) * nat (rows st)"
  unfolding lattice_def by (drule arg_cong [where f = length]) simp

lemma lattice_cell:
  assumes "lattice st" and "k < length (points st)"
  shows "col (points st ! k) = int (k div nat (rows st))"
    and "row (points st ! k) = int (k mod nat (rows st))"
proof -
  have k: "k < nat (cols st) * nat (rows st)" using assms by (simp add: lattice_length)
  have "map (\<lambda>p. (col p, row p)) (points st) ! k =
      map (\<lambda>k. (int (k div nat (rows st)), int (k mod nat (rows st))))
        [0..<nat (cols st) * nat (rows st)] ! k"
    using assms(1) by (simp only: lattice_def)
  then have "(col (points st ! k), row (points st ! k)) =
      (int (k div nat (rows st)), int (k mod nat (rows st)))"
    using assms(2) k by simp
  then show "col (points st ! k) = int (k div nat (rows st))"
    and "row (points st ! k) = int (k mod nat (rows st))" by simp_all
qed

lemma lattice_resize: "lattice (resize rnd w h st)"
  by (simp add: lattice_def points_resize grid_points_cells cols_resize rows_resize)

lemma lattice_init: "lattice init_engine"
  by (simp add: lattice_def init_engine_def)

lemma lattice_cong:
  assumes "lattice st" and "map col (points st') = map col (points st)"
    and "map row (points st') = map row (points st)"
    and "cols st' = cols st" and "rows st' = rows st"
  shows "lattice st'"
proof -
  have "map (\<lambda>p. (col p, row p)) (points st') = zip (map col (points st')) (map row (points st'))"
    by (simp add: zip_map_map) (simp add: zip_same_conv_map)
  also have "\<dots> = zip (map col (points st)) (map row (points st))"
    by (simp only: assms(2,3))
  also have "\<dots> = map (\<lambda>p. (col p, row p)) (points st)"
    by (simp add: zip_map_map) (simp add: zip_same_conv_map)
  finally show ?thesis using assms(1) by (simp add: lattice_def assms(4,5))
qed

lemma lattice_update: "lattice st \<Longrightarrow> lattice (update rnd st)"
  by (erule lattice_cong) (simp_all add: update_def Let_def update_points_frame)

lemma lattice_draw: "lattice st \<Longrightarrow> lattice (draw st)"
  by (simp add: lattice_def draw_def)

lemma lattice_animate: "lattice st \<Longrightarrow> lattice (animate rnd now st)"
proof -
  assume l: "lattice st"
  have a: "lattice (st\<lparr>frameCount := frameCount st + 1\<rparr>)" using l by (simp add: lattice_def)
  have b: "lattice s \<Longrightarrow> lattice (requestAnimationFrame s)" for s
    by (simp add: lattice_def requestAnimationFrame_def)
  show ?thesis
    unfolding animate_def Let_def
    by (rule b) (insert a, simp add: lattice_update lattice_draw)
qed

lemma lattice_handle: "lattice st \<Longrightarrow> lattice (handle rnd ev st)"
  by (cases ev)
     (simp_all add: lattice_resize lattice_animate,
      simp_all add: lattice_def onMove_def onLeave_def onScroll_def)

lemma lattice_run: "lattice st \<Longrightarrow> lattice (run rnd evs st)"
  unfolding run_def by (induction evs arbitrary: st) (simp_all add: lattice_handle)

text \<open>So the invariant holds in every state that the script reaches from its initial state.\<close>

lemma lattice_reachable: "lattice (run rnd evs init_engine)"
  by (rule lattice_run [OF lattice_init])

lemma idx_range:
  assumes "0 \<le> i" and "i < c" and "0 \<le> j" and "j < r"
  shows "0 \<le> idx r i j" and "idx r i j < c * r"
proof -
  have r: "0 \<le> r" using assms(3,4) by simp
  have "0 \<le> i * r" using assms(1) r by simp
  then show "0 \<le> idx r i j" using assms(3) by (simp add: idx_def)
  have "(i + 1) * r \<le> c * r" using assms(2) r by (intro mult_right_mono) simp_all
  then show "idx r i j < c * r" using assms(4) by (simp add: idx_def algebra_simps)
qed

lemma idx_of_cell:
  assumes "0 < r"
  shows "idx (int r) (int (k div r)) (int (k mod r)) = int k"
proof -
  have "int (k div r) * int r + int (k mod r) = int (k div r * r + k mod r)"
    by (simp only: of_nat_add of_nat_mult)
  then show ?thesis by (simp add: idx_def)
qed

lemma cell_of_idx:
  assumes "0 \<le> i" and "0 \<le> j" and "j < r"
  shows "nat (idx r i j) div nat r = nat i" and "nat (idx r i j) mod nat r = nat j"
proof -
  have r: "0 \<le> r" using assms(2,3) by simp
  have k: "nat (idx r i j) = nat i * nat r + nat j"
    by (rule nat_idx [OF assms(1) assms(2) r])
  have j: "nat j < nat r" using assms(2,3) by simp
  show "nat (idx r i j) div nat r = nat i" using j by (simp add: k)
  show "nat (idx r i j) mod nat r = nat j" using j by (simp add: k)
qed

lemma neighbors_spec:
  assumes "0 \<le> i" and "i < c" and "0 \<le> j" and "j < r"
  shows "neighbors c r i j = map (\<lambda>(i', j'). idx r i' j') (spec_neighbours c r i j)"
  using assms by (simp add: neighbors_def spec_neighbours_def)

lemma neighbors_after:
  assumes "0 \<le> i" and "i < c" and "0 \<le> j" and "j < r" and "n \<in> set (neighbors c r i j)"
  shows "idx r i j < n" and "n < c * r"
proof -
  from assms(5) obtain i' j' where n: "n = idx r i' j'"
    and c: "(i', j') \<in> set (spec_neighbours c r i j)"
    unfolding neighbors_spec [OF assms(1-4)] by auto
  from c have both: "(i', j') \<in> set [(i + 1, j), (i, j + 1), (i + 1, j + 1), (i + 1, j - 1)] \<and>
      (0 \<le> i' \<and> i' < c \<and> 0 \<le> j' \<and> j' < r)"
    unfolding spec_neighbours_def by (simp only: set_filter mem_Collect_eq prod.case)
  then have range: "0 \<le> i'" "i' < c" "0 \<le> j'" "j' < r" by blast+
  from both have dir: "(i', j') \<in> {(i + 1, j), (i, j + 1), (i + 1, j + 1), (i + 1, j - 1)}"
    by simp
  show "n < c * r" unfolding n by (rule idx_range(2) [OF range])
  from dir range assms(1-4) show "idx r i j < n"
    unfolding n by (auto simp add: idx_def algebra_simps)
qed

lemma distinct_neighbors:
  assumes "0 \<le> j" and "j < r"
  shows "distinct (neighbors c r i j)"
  using assms by (auto simp add: neighbors_def idx_def algebra_simps)

lemma distinct_pairs:
  assumes "distinct ks" and "\<And>k. k \<in> set ks \<Longrightarrow> distinct (f k)"
  shows "distinct (concat (map (\<lambda>k. map (Pair k) (f k)) ks))"
  using assms
proof (induction ks)
  case Nil
  show ?case by simp
next
  case (Cons k ks)
  have "distinct (map (Pair k) (f k))"
    using Cons.prems(2) [of k] by (simp add: distinct_map inj_on_def)
  moreover have "distinct (concat (map (\<lambda>k. map (Pair k) (f k)) ks))"
    using Cons by simp
  moreover have "set (map (Pair k) (f k)) \<inter> set (concat (map (\<lambda>k. map (Pair k) (f k)) ks)) = {}"
    using Cons.prems(1) by auto
  ultimately show ?case by simp
qed

lemma lattice_point:
  assumes "lattice st" and "k < length (points st)"
  shows "0 \<le> col (points st ! k)" and "col (points st ! k) < cols st"
    and "0 \<le> row (points st ! k)" and "row (points st ! k) < rows st"
    and "idx (rows st) (col (points st ! k)) (row (points st ! k)) = int k"
    and "cols st * rows st = int (length (points st))"
proof -
  let ?C = "nat (cols st)" and ?R = "nat (rows st)"
  have k: "k < ?C * ?R" using assms by (simp add: lattice_length)
  have R: "0 < ?R" using k by (cases ?R) simp_all
  have C: "0 < ?C" using k by (cases ?C) simp_all
  have r: "rows st = int ?R" and c: "cols st = int ?C" using R C by simp_all
  have i: "k div ?R < ?C" using k R by (simp add: less_mult_imp_div_less)
  have j: "k mod ?R < ?R" using R by simp
  note cell = lattice_cell [OF assms]
  show "0 \<le> col (points st ! k)" and "0 \<le> row (points st ! k)" by (simp_all add: cell)
  show "col (points st ! k) < cols st" using i c by (simp add: cell)
  show "row (points st ! k) < rows st" using j r by (simp add: cell)
  have "idx (int ?R) (int (k div ?R)) (int (k mod ?R)) = int k" by (rule idx_of_cell [OF R])
  then show "idx (rows st) (col (points st ! k)) (row (points st ! k)) = int k"
    using r by (simp add: cell)
  have "int ?C * int ?R = int (?C * ?R)" by simp
  then show "cols st * rows st = int (length (points st))"
    using r c by (simp add: lattice_length [OF assms(1)])
qed

lemma candidates_of_spec:
  assumes "lattice st" and "k < length (points st)"
  shows "candidates_of st k =
    map (\<lambda>(i', j'). (k, idx (rows st) i' j'))
      (spec_neighbours (cols st) (rows st) (col (points st ! k)) (row (points st ! k)))"
  unfolding candidates_of_def Let_def
    neighbors_spec [OF lattice_point(1-4) [OF assms]]
  by (simp add: case_prod_unfold)

lemma candidates_mem:
  "e \<in> set (candidates st) \<longleftrightarrow>
     fst e < length (points st) \<and>
     snd e \<in> set (neighbors (cols st) (rows st) (col (points st ! fst e)) (row (points st ! fst e)))"
  by (cases e) (auto simp add: candidates_def candidates_of_def Let_def)

lemma candidate_order:
  assumes "lattice st" and "e \<in> set (candidates st)"
  shows "fst e < length (points st)" and "int (fst e) < snd e"
    and "snd e < int (length (points st))"
proof -
  from assms(2) have k: "fst e < length (points st)"
    and n: "snd e \<in> set (neighbors (cols st) (rows st) (col (points st ! fst e)) (row (points st ! fst e)))"
    by (simp_all add: candidates_mem)
  show "fst e < length (points st)" by (rule k)
  note p = lattice_point [OF assms(1) k]
  from neighbors_after [OF p(1-4) n] show "int (fst e) < snd e"
    and "snd e < int (length (points st))"
    by (simp_all only: p(5) p(6))
qed

lemma candidate_not_reversed:
  assumes "lattice st" and "e \<in> set (candidates st)"
  shows "(nat (snd e), int (fst e)) \<notin> set (candidates st)"
proof
  assume "(nat (snd e), int (fst e)) \<in> set (candidates st)"
  from candidate_order(2) [OF assms(1) this] candidate_order(2) [OF assms]
  show False by simp
qed

lemma distinct_candidates:
  assumes "lattice st"
  shows "distinct (candidates st)"
proof -
  have "distinct (neighbors (cols st) (rows st) (col (points st ! k)) (row (points st ! k)))"
    if "k \<in> set [0..<length (points st)]" for k
  proof -
    from that have k: "k < length (points st)" by simp
    show ?thesis by (rule distinct_neighbors [OF lattice_point(3,4) [OF assms k]])
  qed
  then have "distinct (concat (map (\<lambda>k. map (Pair k)
      (neighbors (cols st) (rows st) (col (points st ! k)) (row (points st ! k))))
      [0..<length (points st)]))"
    by (intro distinct_pairs) simp_all
  moreover have "candidates_of st =
      (\<lambda>k. map (Pair k) (neighbors (cols st) (rows st) (col (points st ! k)) (row (points st ! k))))"
    by (rule ext) (simp add: candidates_of_def Let_def)
  ultimately show ?thesis by (simp add: candidates_def)
qed

lemma candidate_calls:
  assumes "lattice st" and "e \<in> set (candidates st)"
  shows "edge_calls st e =
    (if edge_dist (points st ! fst e) (points st ! nat (snd e)) < maxDist
     then [StrokeLine (px (points st ! fst e)) (py (points st ! fst e))
             (px (points st ! nat (snd e))) (py (points st ! nat (snd e)))
             (edge_alpha (edge_dist (points st ! fst e) (points st ! nat (snd e))))]
     else [])"
proof -
  note o = candidate_order [OF assms]
  have "0 \<le> snd e" using o(2) by simp
  then have "js_index (points st) (snd e) = Some (points st ! nat (snd e))"
    using o(3) by (simp add: js_index_def)
  then show ?thesis by (simp add: edge_calls_def draw_edge_def Let_def)
qed

lemma neighbour_cell_point:
  assumes "lattice st" and "k < length (points st)"
    and "(i', j') \<in> set (spec_neighbours (cols st) (rows st) (col (points st ! k)) (row (points st ! k)))"
  shows "col (points st ! nat (idx (rows st) i' j')) = i'"
    and "row (points st ! nat (idx (rows st) i' j')) = j'"
proof -
  from assms(3) have range: "0 \<le> i'" "i' < cols st" "0 \<le> j'" "j' < rows st"
    unfolding spec_neighbours_def by (simp_all only: set_filter mem_Collect_eq prod.case)
  have "idx (rows st) i' j' < cols st * rows st" by (rule idx_range(2) [OF range])
  then have n: "nat (idx (rows st) i' j') < length (points st)"
    using idx_range(1) [OF range] by (simp add: lattice_point(6) [OF assms(1,2)])
  note cell = lattice_cell [OF assms(1) n] cell_of_idx [OF range(1) range(3) range(4)]
  show "col (points st ! nat (idx (rows st) i' j')) = i'" using range(1) by (simp add: cell)
  show "row (points st ! nat (idx (rows st) i' j')) = j'" using range(3) by (simp add: cell)
qed

lemma strokes_edge_calls: "filter is_stroke (edge_calls st e) = edge_calls st e"
  by (simp add: edge_calls_def draw_edge_def Let_def split: option.splits)

lemma strokes_concat_edge_calls:
  "filter is_stroke (concat (map (edge_calls st) es)) = concat (map (edge_calls st) es)"
  by (induction es) (simp_all add: strokes_edge_calls)

lemma strokes_point_calls:
  "filter is_stroke (point_calls st k) = concat (map (edge_calls st) (candidates_of st k))"
  by (simp add: point_calls_def Let_def strokes_concat_edge_calls)

lemma strokes_points:
  "filter is_stroke (concat (map (point_calls st) ks)) =
     concat (map (edge_calls st) (concat (map (candidates_of st) ks)))"
  by (induction ks) (simp_all add: strokes_point_calls)

lemma strokes_draw_calls:
  "filter is_stroke (draw_calls st) = concat (map (edge_calls st) (candidates st))"
  by (simp add: draw_calls_def candidates_def strokes_points halo_calls_def split: option.splits)

text \<open>
  Claim C7, amended. In a grid that satisfies the grid invariant, the candidate edges of
  the point at \<open>(col = i, row = j)\<close> go to exactly the in-grid cells among right
  \<open>(i + 1, j)\<close>, bottom \<open>(i, j + 1)\<close>, bottom-right \<open>(i + 1, j + 1)\<close> and top-right
  \<open>(i + 1, j - 1)\<close>, and the index computed for such a cell is the index of the point of that
  cell. Over the whole frame no candidate edge occurs twice and none is considered from
  both endpoints (a candidate always leads from a smaller index to a larger one). A
  candidate edge is stroked once when its endpoints are closer than \<open>maxDist\<close> and not at
  all otherwise, and the frame has no other strokes.
\<close>

theorem candidate_edges:
  assumes "lattice st"
  shows "distinct (candidates st) \<and>
    (\<forall>e \<in> set (candidates st).
       fst e < length (points st) \<and> int (fst e) < snd e \<and> snd e < int (length (points st)) \<and>
       (nat (snd e), int (fst e)) \<notin> set (candidates st) \<and>
       edge_calls st e =
         (if edge_dist (points st ! fst e) (points st ! nat (snd e)) < maxDist
          then [StrokeLine (px (points st ! fst e)) (py (points st ! fst e))
                  (px (points st ! nat (snd e))) (py (points st ! nat (snd e)))
                  (edge_alpha (edge_dist (points st ! fst e) (points st ! nat (snd e))))]
          else [])) \<and>
    (\<forall>k < length (points st).
       idx (rows st) (col (points st ! k)) (row (points st ! k)) = int k \<and>
       candidates_of st k =
         map (\<lambda>(i', j'). (k, idx (rows st) i' j'))
           (spec_neighbours (cols st) (rows st) (col (points st ! k)) (row (points st ! k))) \<and>
       (\<forall>(i', j') \<in> set (spec_neighbours (cols st) (rows st)
                            (col (points st ! k)) (row (points st ! k))).
          col (points st ! nat (idx (rows st) i' j')) = i' \<and>
          row (points st ! nat (idx (rows st) i' j')) = j')) \<and>
    candidates st = concat (map (candidates_of st) [0..<length (points st)]) \<and>
    filter is_stroke (draw_calls st) = concat (map (edge_calls st) (candidates st))"
proof (intro conjI ballI allI impI)
  show "distinct (candidates st)" by (rule distinct_candidates [OF assms])
  show "candidates st = concat (map (candidates_of st) [0..<length (points st)])"
    by (rule candidates_def)
  show "filter is_stroke (draw_calls st) = concat (map (edge_calls st) (candidates st))"
    by (rule strokes_draw_calls)
next
  fix e assume e: "e \<in> set (candidates st)"
  show "fst e < length (points st)" "int (fst e) < snd e" "snd e < int (length (points st))"
    by (rule candidate_order [OF assms e])+
  show "(nat (snd e), int (fst e)) \<notin> set (candidates st)"
    by (rule candidate_not_reversed [OF assms e])
  show "edge_calls st e =
         (if edge_dist (points st ! fst e) (points st ! nat (snd e)) < maxDist
          then [StrokeLine (px (points st ! fst e)) (py (points st ! fst e))
                  (px (points st ! nat (snd e))) (py (points st ! nat (snd e)))
                  (edge_alpha (edge_dist (points st ! fst e) (points st ! nat (snd e))))]
          else [])"
    by (rule candidate_calls [OF assms e])
next
  fix k assume k: "k < length (points st)"
  show "idx (rows st) (col (points st ! k)) (row (points st ! k)) = int k"
    by (rule lattice_point(5) [OF assms k])
  show "candidates_of st k =
         map (\<lambda>(i', j'). (k, idx (rows st) i' j'))
           (spec_neighbours (cols st) (rows st) (col (points st ! k)) (row (points st ! k)))"
    by (rule candidates_of_spec [OF assms k])
  fix c assume c: "c \<in> set (spec_neighbours (cols st) (rows st)
                            (col (points st ! k)) (row (points st ! k)))"
  obtain i' j' where ij: "c = (i', j')" by (cases c)
  show "case c of (i', j') \<Rightarrow>
          col (points st ! nat (idx (rows st) i' j')) = i' \<and>
          row (points st ! nat (idx (rows st) i' j')) = j'"
    using neighbour_cell_point [OF assms k c [unfolded ij]] by (simp add: ij)
qed

lemma small_grid_shape: "cols small_grid = 2" "rows small_grid = 2"
  "length (points small_grid) = 4"
  by (simp_all add: small_grid_def cols_resize rows_resize points_resize length_grid_points
      spacing_def)

lemma small_grid_lattice: "lattice small_grid"
  unfolding small_grid_def by (rule lattice_resize)

lemma small_grid_points:
  "points small_grid ! 0 = \<lparr>px = 0, py = 0, ox = 0, oy = 0, vx = 0, vy = 0, col = 0, row = 0\<rparr>"
  "points small_grid ! 3 = \<lparr>px = 150, py = 100, ox = 150, oy = 100, vx = 0, vy = 0, col = 1, row = 1\<rparr>"
proof -
  have p: "points small_grid = grid_points rnd_half 0 2 2"
    by (simp add: small_grid_def points_resize spacing_def init_engine_def)
  have "grid_points rnd_half 0 2 2 ! (0 * 2 + 0) = new_point rnd_half 0 0 (0 + 4 * (0 * 2 + 0))"
    by (rule nth_grid_points) simp_all
  then show "points small_grid ! 0 =
      \<lparr>px = 0, py = 0, ox = 0, oy = 0, vx = 0, vy = 0, col = 0, row = 0\<rparr>"
    by (simp add: p new_point_def stagger_def rnd_half_def spacing_def)
  have "grid_points rnd_half 0 2 2 ! (1 * 2 + 1) = new_point rnd_half 1 1 (0 + 4 * (1 * 2 + 1))"
    by (rule nth_grid_points) simp_all
  then show "points small_grid ! 3 =
      \<lparr>px = 150, py = 100, ox = 150, oy = 100, vx = 0, vy = 0, col = 1, row = 1\<rparr>"
    by (simp add: p new_point_def stagger_def rnd_half_def spacing_def)
qed

lemma small_grid_diagonal: "(0, 3) \<in> set (candidates small_grid)"
  by (simp add: candidates_mem small_grid_shape small_grid_points neighbors_def idx_def)

lemma diagonal_too_long: "\<not> sqrt 32500 < maxDist"
proof -
  have "(180::real)\<^sup>2 \<le> 32500" by simp
  then have "180 \<le> sqrt 32500" by (rule real_le_rsqrt)
  then show ?thesis by (simp add: maxDist_def)
qed

theorem candidate_edges_witness:
  "lattice small_grid \<and> (0, 3) \<in> set (candidates small_grid) \<and>
   (0::nat) < length (points small_grid) \<and>
   distinct (candidates small_grid) \<and>
   (3, 0) \<notin> set (candidates small_grid) \<and>
   candidates_of small_grid 0 = [(0, 2), (0, 1), (0, 3)] \<and>
   col (points small_grid ! 3) = 1 \<and> row (points small_grid ! 3) = 1"
proof -
  note g = candidate_edges [OF small_grid_lattice]
  have k: "(0::nat) < length (points small_grid)" by (simp add: small_grid_shape)
  from g have d: "distinct (candidates small_grid)" by blast
  from g small_grid_diagonal
  have "(nat (snd (0::nat, 3::int)), int (fst (0::nat, 3::int))) \<notin> set (candidates small_grid)"
    by blast
  then have r: "(3, 0) \<notin> set (candidates small_grid)" by simp
  from g k have "candidates_of small_grid 0 =
      map (\<lambda>(i', j'). (0, idx (rows small_grid) i' j'))
        (spec_neighbours (cols small_grid) (rows small_grid)
           (col (points small_grid ! 0)) (row (points small_grid ! 0)))"
    by blast
  then have c: "candidates_of small_grid 0 = [(0, 2), (0, 1), (0, 3)]"
    by (simp add: small_grid_shape small_grid_points spec_neighbours_def idx_def)
  show ?thesis
    using small_grid_lattice small_grid_diagonal k d r c by (simp add: small_grid_points)
qed

text \<open>
  The claim as stated promises that every edge between neighbouring points is drawn once.
  In the freshly built grid of a \<open>100 \<times> 100\<close> viewport the points of the cells \<open>(0, 0)\<close> and
  \<open>(1, 1)\<close> are bottom-right neighbours, \<open>\<surd>32500 > 180\<close> apart: the edge is a candidate and no
  stroke is made for it.
\<close>

theorem candidate_edges_counterexample:
  "(0, 3) \<in> set (candidates small_grid) \<and>
   (col (points small_grid ! 0), row (points small_grid ! 0)) = (0, 0) \<and>
   (col (points small_grid ! 3), row (points small_grid ! 3)) = (1, 1) \<and>
   (px (points small_grid ! 0), py (points small_grid ! 0)) = (0, 0) \<and>
   (px (points small_grid ! 3), py (points small_grid ! 3)) = (150, 100) \<and>
   edge_calls small_grid (0, 3) = [] \<and>
   (3, 0) \<notin> set (candidates small_grid)"
proof -
  have "edge_calls small_grid (0, 3) = []"
    using diagonal_too_long
    by (simp add: edge_calls_def js_index_def small_grid_shape small_grid_points draw_edge_def
        edge_dist_def)
  moreover have "(3, 0) \<notin> set (candidates small_grid)"
    by (simp add: candidates_mem small_grid_shape small_grid_points neighbors_def idx_def)
  ultimately show ?thesis
    using small_grid_diagonal by (simp add: small_grid_points)
qed

lemma edge_alpha_eq: "edge_alpha d = (1 - d / maxDist) * 0.32"
  by (simp add: edge_alpha_def Let_def)

lemma edge_alpha_antimono: "d1 < d2 \<Longrightarrow> edge_alpha d2 < edge_alpha d1"
  by (simp add: edge_alpha_eq maxDist_def)

lemma edge_dist_nonneg: "0 \<le> edge_dist p q"
  by (simp add: edge_dist_def Let_def)

lemma edge_alpha_range:
  assumes "0 \<le> d" and "d < maxDist"
  shows "0 < edge_alpha d" and "edge_alpha d \<le> 0.32"
  using assms by (simp_all add: edge_alpha_eq maxDist_def)

text \<open>
  Claim C8, amended. A candidate edge is stroked only if the Euclidean distance between
  the current positions of its endpoints is below \<open>maxDist\<close>, with opacity
  \<open>(1 - dist / maxDist) * 0.32\<close>. The opacity falls as the distance grows; at \<open>dist = 0\<close> it is
  the maximum \<open>0.32\<close>; every stroke has an opacity in \<open>(0, 0.32]\<close>. An edge at exactly
  \<open>dist = maxDist\<close>, where the formula would give \<open>0\<close>, is not stroked at all.
\<close>

theorem edge_visibility:
  "draw_edge p q =
     (if edge_dist p q < maxDist
      then [StrokeLine (px p) (py p) (px q) (py q) ((1 - edge_dist p q / maxDist) * 0.32)]
      else []) \<and>
   edge_dist p q = sqrt ((px p - px q)\<^sup>2 + (py p - py q)\<^sup>2) \<and>
   (edge_dist p q = maxDist \<longrightarrow> draw_edge p q = [] \<and> (1 - edge_dist p q / maxDist) * 0.32 = 0) \<and>
   (edge_dist p q = 0 \<longrightarrow> draw_edge p q = [StrokeLine (px p) (py p) (px q) (py q) 0.32]) \<and>
   (edge_dist p q < maxDist \<longrightarrow>
      0 < (1 - edge_dist p q / maxDist) * 0.32 \<and> (1 - edge_dist p q / maxDist) * 0.32 \<le> 0.32) \<and>
   (\<forall>d1 d2. d1 < d2 \<longrightarrow> (1 - d2 / maxDist) * 0.32 < (1 - d1 / maxDist) * 0.32)"
proof -
  have call: "draw_edge p q =
     (if edge_dist p q < maxDist
      then [StrokeLine (px p) (py p) (px q) (py q) ((1 - edge_dist p q / maxDist) * 0.32)]
      else [])"
    by (simp add: draw_edge_def Let_def edge_alpha_eq)
  have dist: "edge_dist p q = sqrt ((px p - px q)\<^sup>2 + (py p - py q)\<^sup>2)"
    by (simp add: edge_dist_def Let_def power2_eq_square)
  have far: "draw_edge p q = [] \<and> (1 - edge_dist p q / maxDist) * 0.32 = 0"
    if "edge_dist p q = maxDist"
    using that by (simp add: call maxDist_def)
  have near: "draw_edge p q = [StrokeLine (px p) (py p) (px q) (py q) 0.32]"
    if "edge_dist p q = 0"
    using that by (simp add: call maxDist_def)
  have range: "0 < (1 - edge_dist p q / maxDist) * 0.32 \<and> (1 - edge_dist p q / maxDist) * 0.32 \<le> 0.32"
    if "edge_dist p q < maxDist"
    using edge_alpha_range [OF edge_dist_nonneg that] unfolding edge_alpha_eq by blast
  have mono: "\<forall>d1 d2. d1 < d2 \<longrightarrow> (1 - d2 / maxDist) * 0.32 < (1 - d1 / maxDist) * 0.32"
    using edge_alpha_antimono unfolding edge_alpha_eq by blast
  show ?thesis using call dist far near range mono by blast
qed

lemma sqrt_32400: "sqrt 32400 = 180"
  by (rule real_sqrt_unique) simp_all

lemma ends_apart: "edge_dist left_end right_end = maxDist"
  by (simp add: edge_dist_def left_end_def right_end_def sqrt_32400 maxDist_def)

theorem edge_visibility_witness:
  "edge_dist left_end right_end = maxDist \<and> draw_edge left_end right_end = [] \<and>
   edge_dist left_end left_end = 0 \<and> edge_dist left_end left_end < maxDist \<and>
   draw_edge left_end left_end = [StrokeLine 0 0 0 0 0.32] \<and>
   (100::real) < 170 \<and> (1 - 170 / maxDist) * 0.32 < (1 - 100 / maxDist) * 0.32"
proof -
  have z: "edge_dist left_end left_end = 0" by (simp add: edge_dist_def)
  have l: "edge_dist left_end left_end < maxDist" by (simp add: z maxDist_def)
  have o: "(100::real) < 170" by simp
  note a = edge_visibility [of left_end right_end]
  note b = edge_visibility [of left_end left_end]
  from a ends_apart have far: "draw_edge left_end right_end = []" by blast
  from b z have "draw_edge left_end left_end =
      [StrokeLine (px left_end) (py left_end) (px left_end) (py left_end) 0.32]"
    by blast
  then have near: "draw_edge left_end left_end = [StrokeLine 0 0 0 0 0.32]"
    by (simp add: left_end_def)
  from a o have mono: "(1 - 170 / maxDist) * 0.32 < (1 - 100 / maxDist) * 0.32" by blast
  show ?thesis using ends_apart far z l near o mono by blast
qed

text \<open>
  The claim as stated promises a stroke of opacity \<open>0\<close> at \<open>dist = maxDist\<close>. For two points
  exactly \<open>180\<close> apart the renderer makes no stroke.
\<close>

theorem edge_visibility_counterexample:
  "edge_dist left_end right_end = maxDist \<and>
   draw_edge left_end right_end = [] \<and>
   draw_edge left_end right_end \<noteq> [StrokeLine 0 0 180 0 0]"
  using ends_apart by (simp add: draw_edge_def)

section \<open>The frame scheduler\<close>

lemma animate_cases:
  "animate rnd now st =
     requestAnimationFrame
       (if frame_work now st
        then draw (update rnd (st\<lparr>frameCount := frameCount st + 1\<rparr>))
        else st\<lparr>frameCount := frameCount st + 1\<rparr>)"
  by (auto simp add: animate_def frame_work_def Let_def mod_eq_0_iff_dvd)

lemma calls_update: "calls (update rnd st) = calls st"
  by (simp add: update_def Let_def)

lemma animate_calls:
  "calls (animate rnd now st) =
     calls st @
     (if frame_work now st
      then draw_calls (update rnd (st\<lparr>frameCount := frameCount st + 1\<rparr>))
      else []) @
     [RequestAnimationFrame]"
  by (simp add: animate_cases requestAnimationFrame_def draw_def calls_update)

lemma animate_counters:
  "frameCount (animate rnd now st) = frameCount st + 1"
  "lastScrollTime (animate rnd now st) = lastScrollTime st"
  by (simp_all add: animate_cases requestAnimationFrame_def draw_def update_def Let_def)

lemma draw_calls_nonempty: "draw_calls st \<noteq> []"
  by (simp add: draw_calls_def)

lemma run_snoc: "run rnd (evs @ [ev]) st = handle rnd ev (run rnd evs st)"
  by (simp add: run_def)

lemma run_Cons: "run rnd (ev # evs) st = run rnd evs (handle rnd ev st)"
  by (simp add: run_def)

lemma run_Nil: "run rnd [] st = st"
  by (simp add: run_def)

lemma scroll_frames_counters:
  "frameCount (run rnd (Scroll ts # map Frame ns) st) = frameCount st + length ns"
  "lastScrollTime (run rnd (Scroll ts # map Frame ns) st) = ts"
proof (induction ns rule: rev_induct)
  case Nil
  show "frameCount (run rnd (Scroll ts # map Frame []) st) = frameCount st + length []"
    and "lastScrollTime (run rnd (Scroll ts # map Frame []) st) = ts"
    by (simp_all add: run_def onScroll_def)
next
  case (snoc n ns)
  have unf: "run rnd (Scroll ts # map Frame ns @ [Frame n]) st =
      animate rnd n (run rnd (Scroll ts # map Frame ns) st)"
    using run_snoc [of rnd "Scroll ts # map Frame ns" "Frame n" st] by simp
  show "frameCount (run rnd (Scroll ts # map Frame (ns @ [n])) st) = frameCount st + length (ns @ [n])"
    and "lastScrollTime (run rnd (Scroll ts # map Frame (ns @ [n])) st) = ts"
    by (simp_all add: unf animate_counters snoc)
qed

lemma frame_work_after_scroll:
  assumes "now - ts < 160"
  shows "frame_work now (run rnd (Scroll ts # map Frame ns) st) \<longleftrightarrow>
           4 dvd frameCount st + length ns + 1"
  using assms by (simp add: frame_work_def scroll_frames_counters)

lemma three_frames_after_scroll:
  assumes "t1 - ts < 160" and "t2 - ts < 160" and "t3 - ts < 160"
  shows "(calls (run rnd [Scroll ts, Frame t1, Frame t2, Frame t3] st) =
            calls st @ [RequestAnimationFrame, RequestAnimationFrame, RequestAnimationFrame])
         = (4 dvd frameCount st)"
proof -
  let ?s0 = "run rnd (Scroll ts # map Frame []) st"
  let ?s1 = "run rnd (Scroll ts # map Frame [t1]) st"
  let ?s2 = "run rnd (Scroll ts # map Frame [t1, t2]) st"
  let ?s3 = "run rnd (Scroll ts # map Frame [t1, t2, t3]) st"
  let ?w = "\<lambda>now s. if frame_work now s
      then draw_calls (update rnd (s\<lparr>frameCount := frameCount s + 1\<rparr>)) else []"
  have s1: "?s1 = animate rnd t1 ?s0" and s2: "?s2 = animate rnd t2 ?s1"
    and s3: "?s3 = animate rnd t3 ?s2"
    by (simp_all add: run_def)
  have c0: "calls ?s0 = calls st" by (simp add: run_def onScroll_def)
  have c3: "calls ?s3 = calls st @ ?w t1 ?s0 @ [RequestAnimationFrame] @ ?w t2 ?s1 @
      [RequestAnimationFrame] @ ?w t3 ?s2 @ [RequestAnimationFrame]"
    unfolding s3 animate_calls [of rnd t3] unfolding s2 animate_calls [of rnd t2]
    unfolding s1 animate_calls [of rnd t1] unfolding c0 by simp
  have w1: "frame_work t1 ?s0 \<longleftrightarrow> 4 dvd frameCount st + 1"
    using frame_work_after_scroll [OF assms(1), of rnd "[]" st] by simp
  have w2: "frame_work t2 ?s1 \<longleftrightarrow> 4 dvd frameCount st + 2"
    using frame_work_after_scroll [OF assms(2), of rnd "[t1]" st] by simp
  have w3: "frame_work t3 ?s2 \<longleftrightarrow> 4 dvd frameCount st + 3"
    using frame_work_after_scroll [OF assms(3), of rnd "[t1, t2]" st]
    by (simp add: numeral_3_eq_3)
  have len: "length (calls ?s3) =
      length (calls st) + 3 + length (?w t1 ?s0) + length (?w t2 ?s1) + length (?w t3 ?s2)"
    by (simp only: c3 length_append) simp
  show ?thesis
  proof
    assume "calls (run rnd [Scroll ts, Frame t1, Frame t2, Frame t3] st) =
            calls st @ [RequestAnimationFrame, RequestAnimationFrame, RequestAnimationFrame]"
    then have "length (calls ?s3) = length (calls st) + 3" by simp
    with len have "?w t1 ?s0 = []" "?w t2 ?s1 = []" "?w t3 ?s2 = []" by simp_all
    then have "\<not> frame_work t1 ?s0" "\<not> frame_work t2 ?s1" "\<not> frame_work t3 ?s2"
      by (simp_all add: draw_calls_nonempty split: if_splits)
    then have "\<not> 4 dvd frameCount st + 1" "\<not> 4 dvd frameCount st + 2"
      "\<not> 4 dvd frameCount st + 3"
      using w1 w2 w3 by blast+
    then show "4 dvd frameCount st" by presburger
  next
    assume "4 dvd frameCount st"
    then have "\<not> 4 dvd frameCount st + 1" "\<not> 4 dvd frameCount st + 2"
      "\<not> 4 dvd frameCount st + 3"
      by presburger+
    then have "\<not> frame_work t1 ?s0" "\<not> frame_work t2 ?s1" "\<not> frame_work t3 ?s2"
      using w1 w2 w3 by blast+
    then have "calls ?s3 = calls st @ [RequestAnimationFrame, RequestAnimationFrame, RequestAnimationFrame]"
      by (simp only: c3) simp
    then show "calls (run rnd [Scroll ts, Frame t1, Frame t2, Frame t3] st) =
            calls st @ [RequestAnimationFrame, RequestAnimationFrame, RequestAnimationFrame]"
      by simp
  qed
qed

lemma fourth_frame_after_scroll:
  assumes "4 dvd frameCount st"
  shows "calls (run rnd [Scroll ts, Frame t1, Frame t2, Frame t3, Frame t4] st) =
     calls (run rnd [Scroll ts, Frame t1, Frame t2, Frame t3] st) @
     draw_calls (update rnd
       ((run rnd [Scroll ts, Frame t1, Frame t2, Frame t3] st)\<lparr>frameCount := frameCount st + 4\<rparr>)) @
     [RequestAnimationFrame]"
proof -
  let ?s3 = "run rnd (Scroll ts # map Frame [t1, t2, t3]) st"
  have s4: "run rnd [Scroll ts, Frame t1, Frame t2, Frame t3, Frame t4] st = animate rnd t4 ?s3"
    by (simp add: run_def)
  have fc: "frameCount ?s3 = frameCount st + 3"
    using scroll_frames_counters(1) [of rnd ts "[t1, t2, t3]" st] by simp
  have "4 dvd frameCount ?s3 + 1" using assms unfolding fc by presburger
  then have "frame_work t4 ?s3" by (simp add: frame_work_def)
  then show ?thesis
    unfolding s4 animate_calls [of rnd t4] using fc by (simp add: add.commute)
qed

text \<open>
  Claim C4, amended. Every callback increments the frame counter, computes
  \<open>scrolling = now - lastScrollTime < 160\<close>, and does the physics and render pass unless it is
  scrolling and the incremented counter is not a multiple of 4; the counter counts the
  callbacks since the script started and is not reset by a scroll event. Whether or not the
  pass was done, the callback ends by requesting the next animation frame. After a scroll
  event, three callbacks within 160 ms are all skipped exactly when the counter was a
  multiple of 4 at the scroll; the fourth callback then does the pass.
\<close>

theorem frame_throttle:
  "calls (animate rnd now st) =
     calls st @
     (if now - lastScrollTime st < 160 \<and> \<not> 4 dvd frameCount st + 1 then []
      else draw_calls (update rnd (st\<lparr>frameCount := frameCount st + 1\<rparr>))) @
     [RequestAnimationFrame] \<and>
   animate rnd now st =
     requestAnimationFrame
       (if now - lastScrollTime st < 160 \<and> \<not> 4 dvd frameCount st + 1
        then st\<lparr>frameCount := frameCount st + 1\<rparr>
        else draw (update rnd (st\<lparr>frameCount := frameCount st + 1\<rparr>))) \<and>
   draw_calls (update rnd (st\<lparr>frameCount := frameCount st + 1\<rparr>)) \<noteq> [] \<and>
   (t1 - ts < 160 \<and> t2 - ts < 160 \<and> t3 - ts < 160 \<longrightarrow>
      (calls (run rnd [Scroll ts, Frame t1, Frame t2, Frame t3] st) =
         calls st @ [RequestAnimationFrame, RequestAnimationFrame, RequestAnimationFrame])
      = (4 dvd frameCount st)) \<and>
   (4 dvd frameCount st \<longrightarrow>
      calls (run rnd [Scroll ts, Frame t1, Frame t2, Frame t3, Frame t4] st) =
        calls (run rnd [Scroll ts, Frame t1, Frame t2, Frame t3] st) @
        draw_calls (update rnd
          ((run rnd [Scroll ts, Frame t1, Frame t2, Frame t3] st)
             \<lparr>frameCount := frameCount st + 4\<rparr>)) @
        [RequestAnimationFrame])"
proof -
  have w: "frame_work now st = (\<not> (now - lastScrollTime st < 160 \<and> \<not> 4 dvd frameCount st + 1))"
    by (auto simp add: frame_work_def)
  have a: "calls (animate rnd now st) =
     calls st @
     (if now - lastScrollTime st < 160 \<and> \<not> 4 dvd frameCount st + 1 then []
      else draw_calls (update rnd (st\<lparr>frameCount := frameCount st + 1\<rparr>))) @
     [RequestAnimationFrame]"
    unfolding animate_calls w by simp
  have b: "animate rnd now st =
     requestAnimationFrame
       (if now - lastScrollTime st < 160 \<and> \<not> 4 dvd frameCount st + 1
        then st\<lparr>frameCount := frameCount st + 1\<rparr>
        else draw (update rnd (st\<lparr>frameCount := frameCount st + 1\<rparr>)))"
    unfolding animate_cases w by simp
  show ?thesis
    using a b draw_calls_nonempty [of "update rnd (st\<lparr>frameCount := frameCount st + 1\<rparr>)"]
      three_frames_after_scroll [of t1 ts t2 t3 rnd st]
      fourth_frame_after_scroll [of st rnd ts t1 t2 t3 t4]
    by blast
qed

lemma frameCount_resize: "frameCount (resize rnd w h st) = frameCount st"
  by (simp add: resize_def initPoints_def Let_def)

lemma two_frames_in_count: "frameCount two_frames_in = 2"
  by (simp add: two_frames_in_def run_def animate_counters frameCount_resize init_engine_def)

lemmas engine_eval = run_def resize_def initPoints_def push_point_def new_point_def animate_def
  update_def draw_def draw_calls_def point_calls_def candidates_of_def neighbors_def
  halo_calls_def requestAnimationFrame_def onScroll_def init_engine_def rnd_half_def
  update_point_def mouse_repel_def spacing_def stagger_def Let_def

lemma two_frames_in_eq:
  "two_frames_in =
     \<lparr>width = 0, height = 0,
      points = [\<lparr>px = 0, py = 0, ox = 0, oy = 0, vx = 0, vy = 0, col = 0, row = 0\<rparr>],
      cols = 1, rows = 1, mouse = \<lparr>mouse_x = None, mouse_y = None\<rparr>,
      lastScrollTime = 0, frameCount = 2, draws = 8,
      calls = [ClearRect 0 0 0 0, FillArc 0 0 0.5 0.22, RequestAnimationFrame,
               ClearRect 0 0 0 0, FillArc 0 0 0.5 0.22, RequestAnimationFrame]\<rparr>"
  by (simp add: two_frames_in_def engine_eval)

text \<open>
  The claim as stated promises that after a scroll event the first three callbacks are
  skipped and the fourth does the pass. With two frames already counted when the scroll
  event comes, the second callback after it does the pass (the counter reaches 4) and the
  first, third and fourth are skipped.
\<close>

theorem frame_throttle_counterexample:
  "frameCount two_frames_in = 2 \<and>
   calls (run rnd_half [Scroll 1020, Frame 1032] two_frames_in) =
     calls two_frames_in @ [RequestAnimationFrame] \<and>
   calls (run rnd_half [Scroll 1020, Frame 1032, Frame 1048] two_frames_in) =
     calls two_frames_in @
     [RequestAnimationFrame,
      ClearRect 0 0 0 0, FillArc 0 0 0.5 0.22, RequestAnimationFrame] \<and>
   calls (run rnd_half [Scroll 1020, Frame 1032, Frame 1048, Frame 1064] two_frames_in) =
     calls two_frames_in @
     [RequestAnimationFrame,
      ClearRect 0 0 0 0, FillArc 0 0 0.5 0.22, RequestAnimationFrame,
      RequestAnimationFrame] \<and>
   calls (run rnd_half [Scroll 1020, Frame 1032, Frame 1048, Frame 1064, Frame 1080] two_frames_in) =
     calls two_frames_in @
     [RequestAnimationFrame,
      ClearRect 0 0 0 0, FillArc 0 0 0.5 0.22, RequestAnimationFrame,
      RequestAnimationFrame,
      RequestAnimationFrame]"
  by (simp add: two_frames_in_eq) (simp add: engine_eval)

lemma four_frames_in_count: "frameCount four_frames_in = 4"
  by (simp add: four_frames_in_def run_def animate_counters frameCount_resize init_engine_def)

theorem frame_throttle_witness:
  "(1064::int) - 1060 < 160 \<and> (1080::int) - 1060 < 160 \<and> (1096::int) - 1060 < 160 \<and>
   4 dvd frameCount four_frames_in \<and>
   calls (run rnd_half [Scroll 1060, Frame 1064, Frame 1080, Frame 1096] four_frames_in) =
     calls four_frames_in @
     [RequestAnimationFrame, RequestAnimationFrame, RequestAnimationFrame] \<and>
   calls (run rnd_half [Scroll 1060, Frame 1064, Frame 1080, Frame 1096, Frame 1112] four_frames_in) =
     calls (run rnd_half [Scroll 1060, Frame 1064, Frame 1080, Frame 1096] four_frames_in) @
     draw_calls (update rnd_half
       ((run rnd_half [Scroll 1060, Frame 1064, Frame 1080, Frame 1096] four_frames_in)
          \<lparr>frameCount := frameCount four_frames_in + 4\<rparr>)) @
     [RequestAnimationFrame]"
proof -
  have t: "(1064::int) - 1060 < 160 \<and> (1080::int) - 1060 < 160 \<and> (1096::int) - 1060 < 160"
    by simp
  have d: "4 dvd frameCount four_frames_in" by (simp add: four_frames_in_count)
  show ?thesis
    using frame_throttle [of rnd_half 1112 four_frames_in 1064 1060 1080 1096 1112] t d
    by blast
qed

end
